theory Spec2Isabelle
  imports Complex_Main
begin

unbundle bit_operations_syntax

section \<open>Data model\<close>

text \<open>
  The kernels work on JavaScript numbers. Every arithmetic operation of the source is
  kept in the order and with the bracketing the source has, over an arbitrary type with
  \<open>0 \<noteq> 1\<close>, \<open>+\<close>, \<open>-\<close> and \<open>*\<close> and no algebraic law at all, so nothing proved
  below depends on associativity, distributivity or \<open>1 * v = v\<close>. The only
  comparisons the kernels make on numbers are against the constants \<open>0\<close> and \<open>1\<close>.
  JavaScript's \<open>===\<close> takes \<open>-0\<close> for \<open>0\<close>; the model has one zero.
  Dimensions, leading dimensions and strides are integers.

  A backing array (\<open>fpArray\<close>) is a store from indices to numbers. A store is total:
  the length of an array is not modelled, so a call is modelled as long as its indices
  fall inside the arrays it is given. The fields \<open>r\<close> and
  \<open>i\<close> of the source are called \<open>vr\<close>, \<open>vi\<close> on a vector and \<open>mr\<close>, \<open>mi\<close> on a
  matrix; the imaginary array is optional, as in the source. The arrays of different
  arguments are taken to be different objects.
\<close>

type_synonym 'a fpArray = "int \<Rightarrow> 'a"

record 'a cplx =
  re :: 'a
  im :: 'a

record 'a FortranArr =
  base :: int
  vr :: "'a fpArray"
  vi :: "'a fpArray option"

text \<open>
  \<open>colOfEx\<close> is a method of the matrix object; the sources do not contain it, so it
  is a field of the record and every theorem holds for any such function.
\<close>

record 'a Matrix =
  mr :: "'a fpArray"
  mi :: "'a fpArray option"
  colOfEx :: "int \<Rightarrow> int"

datatype error = InvalidArgument string nat | MissingImaginaryComponent string

text \<open>
  A call either returns or throws; in both cases the output buffer the caller passed in
  is left in some state, which is the second component.
\<close>

datatype 'b outcome = Returned 'b | Threw error 'b

fun buffer_of :: "'b outcome \<Rightarrow> 'b" where
  "buffer_of (Returned b) = b"
| "buffer_of (Threw e b) = b"

text \<open>
  \<open>String.fromCharCode(s.charCodeAt(0) | 0x20)\<close>: the code of the first character with
  bit 5 set. On the empty string \<open>charCodeAt(0)\<close> is NaN, which \<open>|\<close> reads as 0.
\<close>

definition charCodeAt0 :: "string \<Rightarrow> nat" where
  "charCodeAt0 s = (case s of [] \<Rightarrow> 0 | c # _ \<Rightarrow> of_char c)"

definition fromCharCode :: "nat \<Rightarrow> string" where
  "fromCharCode c = [char_of c]"

text \<open>\<open>hay.includes(needle)\<close> on strings: \<open>needle\<close> occurs in \<open>hay\<close> as a contiguous run.\<close>

fun includes_str :: "string \<Rightarrow> string \<Rightarrow> bool" where
  "includes_str [] needle = (needle = [])"
| "includes_str (h # t) needle = (take (length needle) (h # t) = needle \<or> includes_str t needle)"

text \<open>An array given by its elements from index 0, for the concrete calls below; none of
  them reads or writes past the elements listed.\<close>

definition fpArray_of :: "'a list \<Rightarrow> ('a::zero) fpArray" where
  "fpArray_of xs = (\<lambda>p. if 0 \<le> p \<and> p < int (length xs) then xs ! nat p else 0)"

text \<open>The column-major layout with leading dimension \<open>ld\<close> over an array indexed from 0,
  rows and columns counted from 1: \<open>colOfEx(j) + i\<close> is the index of the element in row
  \<open>i\<close> of column \<open>j\<close>.\<close>

definition column_major :: "int \<Rightarrow> int \<Rightarrow> int" where
  "column_major ld j = (j - 1) * ld - 1"

section \<open>chbmv\<close>

text \<open>Lines 52 to 71.\<close>

definition chbmv_info :: "string \<Rightarrow> int \<Rightarrow> int \<Rightarrow> int \<Rightarrow> int \<Rightarrow> int \<Rightarrow> nat" where
  "chbmv_info ul n k lda incx incy =
     (if ul \<noteq> ''u'' \<and> ul \<noteq> ''l'' then 1
      else if n < 0 then 2
      else if k < 0 then 3
      else if lda < k + 1 then 6
      else if incx = 0 then 8
      else if incy = 0 then 11
      else 0)"

text \<open>One pass of the loop of lines 96 to 100; the second assignment reads the \<open>y.r[iy]\<close>
  the first one has just written.\<close>

definition chbmv_scale_step ::
  "'a \<Rightarrow> 'a \<Rightarrow> bool \<Rightarrow> int \<Rightarrow> 'a fpArray \<times> 'a fpArray \<times> int
     \<Rightarrow> ('a::{zero_neq_one,plus,minus,times}) fpArray \<times> 'a fpArray \<times> int" where
  "chbmv_scale_step BetaRe BetaIm betaIsZero incy = (\<lambda>(yr, yi, iy).
     let yr' = yr(iy := (if betaIsZero then 0 else BetaRe * yr iy - BetaIm * yi iy));
         yi' = yi(iy := (if betaIsZero then 0 else BetaRe * yi iy + BetaIm * yr' iy))
     in (yr', yi', iy + incy))"

text \<open>Lines 89 to 94: which of the three ways through the scaling block a call takes.\<close>

datatype scale_branch = NoScaling | BulkFill | StridedLoop

definition chbmv_scale_branch :: "bool \<Rightarrow> bool \<Rightarrow> int \<Rightarrow> scale_branch" where
  "chbmv_scale_branch betaIsOne betaIsZero incy =
     (if betaIsOne then (if betaIsZero \<and> incy = 1 then BulkFill else StridedLoop)
      else NoScaling)"

text \<open>Lines 89 to 102. \<open>iy\<close> starts at \<open>ky\<close> itself: this block does not subtract
  \<open>y.base\<close>. \<open>fill(0)\<close> sets every element of the backing array.\<close>

definition chbmv_scale ::
  "bool \<Rightarrow> bool \<Rightarrow> 'a \<Rightarrow> 'a \<Rightarrow> int \<Rightarrow> int \<Rightarrow> int \<Rightarrow> 'a fpArray \<times> 'a fpArray
     \<Rightarrow> ('a::{zero_neq_one,plus,minus,times}) fpArray \<times> 'a fpArray" where
  "chbmv_scale betaIsOne betaIsZero BetaRe BetaIm n incy ky = (\<lambda>(yr, yi).
     case chbmv_scale_branch betaIsOne betaIsZero incy of
       NoScaling \<Rightarrow> (yr, yi)
     | BulkFill \<Rightarrow> (\<lambda>_. 0, \<lambda>_. 0)
     | StridedLoop \<Rightarrow>
         (case fold (\<lambda>_. chbmv_scale_step BetaRe BetaIm betaIsZero incy) [1..n] (yr, yi, ky)
          of (yr', yi', _) \<Rightarrow> (yr', yi')))"

text \<open>Upper band, lines 122 to 130: one pass of the inner loop at row \<open>i\<close>.\<close>

definition chbmv_upper_inner ::
  "'a \<Rightarrow> 'a \<Rightarrow> 'a fpArray \<Rightarrow> 'a fpArray \<Rightarrow> 'a fpArray \<Rightarrow> 'a fpArray \<Rightarrow> int \<Rightarrow> int \<Rightarrow> int \<Rightarrow> int
     \<Rightarrow> int \<Rightarrow> 'a fpArray \<times> 'a fpArray \<times> 'a \<times> 'a \<times> int \<times> int
     \<Rightarrow> ('a::{zero_neq_one,plus,minus,times}) fpArray \<times> 'a fpArray \<times> 'a \<times> 'a \<times> int \<times> int" where
  "chbmv_upper_inner temp1Re temp1Im ar ai xr xi incx incy coords L i =
     (\<lambda>(yr, yi, temp2Re, temp2Im, ix, iy).
        let yr' = yr(iy := yr iy + (temp1Re * ar (coords + L + i) - temp1Im * ai (coords + L + i)));
            yi' = yi(iy := yi iy + (temp1Re * ai (coords + L + i) + temp1Im * ar (coords + L + i)));
            temp2Re' = temp2Re + (ar (coords + L + i) * xr ix + ai (coords + L + i) * xi ix);
            temp2Im' = temp2Im + (ar (coords + L + i) * xi ix - ai (coords + L + i) * xr ix)
        in (yr', yi', temp2Re', temp2Im', ix + incx, iy + incy))"

text \<open>Upper band, lines 110 to 140: the body of the loop over the columns \<open>j\<close>. The loop
  state is \<open>y.r\<close>, \<open>y.i\<close>, \<open>jx\<close>, \<open>jy\<close>, \<open>kx\<close>, \<open>ky\<close>.\<close>

definition chbmv_upper_col ::
  "'a \<Rightarrow> 'a \<Rightarrow> int \<Rightarrow> 'a fpArray \<Rightarrow> 'a fpArray \<Rightarrow> (int \<Rightarrow> int) \<Rightarrow> 'a fpArray \<Rightarrow> 'a fpArray
     \<Rightarrow> int \<Rightarrow> int \<Rightarrow> int \<Rightarrow> int \<Rightarrow> int
     \<Rightarrow> 'a fpArray \<times> 'a fpArray \<times> int \<times> int \<times> int \<times> int
     \<Rightarrow> ('a::{zero_neq_one,plus,minus,times}) fpArray \<times> 'a fpArray \<times> int \<times> int \<times> int \<times> int" where
  "chbmv_upper_col AlphaRe AlphaIm k ar ai colA xr xi xbase ybase incx incy j =
     (\<lambda>(yr, yi, jx, jy, kx, ky).
        let kplus1 = k + 1;
            temp1Re = AlphaRe * xr jx - AlphaIm * xi jx;
            temp1Im = AlphaRe * xi jx + AlphaIm * xr jx;
            L = kplus1 - j;
            coords = colA j
        in case fold (chbmv_upper_inner temp1Re temp1Im ar ai xr xi incx incy coords L)
                  [max 1 (j - k) .. j - 1] (yr, yi, 0, 0, kx - xbase, ky - ybase)
           of (yr1, yi1, temp2Re, temp2Im, ix, iy) \<Rightarrow>
             let yr2 = yr1(iy := yr1 iy + (temp1Re * ar (coords + kplus1)
                                            + (AlphaRe * temp2Re - AlphaIm * temp2Im)));
                 yi2 = yi1(iy := yi1 iy + (temp1Im * ar (coords + kplus1)
                                            + (AlphaRe * temp2Im + AlphaIm * temp2Re)))
             in (yr2, yi2, jx + incx, jy + incy,
                 (if j > k then kx + incx else kx), (if j > k then ky + incy else ky)))"

text \<open>Lower band, lines 159 to 169: one pass of the inner loop at row \<open>i\<close>.\<close>

definition chbmv_lower_inner ::
  "'a \<Rightarrow> 'a \<Rightarrow> 'a fpArray \<Rightarrow> 'a fpArray \<Rightarrow> 'a fpArray \<Rightarrow> 'a fpArray \<Rightarrow> int \<Rightarrow> int \<Rightarrow> int \<Rightarrow> int
     \<Rightarrow> int \<Rightarrow> 'a fpArray \<times> 'a fpArray \<times> 'a \<times> 'a \<times> int \<times> int
     \<Rightarrow> ('a::{zero_neq_one,plus,minus,times}) fpArray \<times> 'a fpArray \<times> 'a \<times> 'a \<times> int \<times> int" where
  "chbmv_lower_inner temp1Re temp1Im ar ai xr xi incx incy coords L i =
     (\<lambda>(yr, yi, temp2Re, temp2Im, ix0, iy0).
        let ix = ix0 + incx;
            iy = iy0 + incy;
            yr' = yr(iy := yr iy + (temp1Re * ar (coords + L + i) - temp1Im * ai (coords + L + i)));
            yi' = yi(iy := yi iy + (temp1Re * ai (coords + L + i) + temp1Im * ar (coords + L + i)));
            temp2Re' = temp2Re + (ar (coords + L + i) * xr ix + ai (coords + L + i) * xi ix);
            temp2Im' = temp2Im + (ar (coords + L + i) * xi ix - ai (coords + L + i) * xr ix)
        in (yr', yi', temp2Re', temp2Im', ix, iy))"

text \<open>Lower band, lines 144 to 175: the body of the loop over the columns \<open>j\<close>. The loop
  state is \<open>y.r\<close>, \<open>y.i\<close>, \<open>jx\<close>, \<open>jy\<close>.\<close>

definition chbmv_lower_col ::
  "'a \<Rightarrow> 'a \<Rightarrow> int \<Rightarrow> int \<Rightarrow> 'a fpArray \<Rightarrow> 'a fpArray \<Rightarrow> (int \<Rightarrow> int) \<Rightarrow> 'a fpArray \<Rightarrow> 'a fpArray
     \<Rightarrow> int \<Rightarrow> int \<Rightarrow> int
     \<Rightarrow> 'a fpArray \<times> 'a fpArray \<times> int \<times> int
     \<Rightarrow> ('a::{zero_neq_one,plus,minus,times}) fpArray \<times> 'a fpArray \<times> int \<times> int" where
  "chbmv_lower_col AlphaRe AlphaIm n k ar ai colA xr xi incx incy j =
     (\<lambda>(yr, yi, jx, jy).
        let temp1Re = AlphaRe * xr jx - AlphaIm * xi jx;
            temp1Im = AlphaRe * xi jx + AlphaIm * xr jx;
            coords = colA j;
            yr0 = yr(jy := yr jy + temp1Re * ar (coords + 1));
            yi0 = yi(jy := yi jy + temp1Im * ar (coords + 1));
            L = 1 - j
        in case fold (chbmv_lower_inner temp1Re temp1Im ar ai xr xi incx incy coords L)
                  [j + 1 .. min n (j + k)] (yr0, yi0, 0, 0, jx, jy)
           of (yr1, yi1, temp2Re, temp2Im, ix, iy) \<Rightarrow>
             let yr2 = yr1(jy := yr1 jy + (AlphaRe * temp2Re - AlphaIm * temp2Im));
                 yi2 = yi1(jy := yi1 jy + (AlphaRe * temp2Im + AlphaIm * temp2Re))
             in (yr2, yi2, jx + incx, jy + incy))"

text \<open>Lines 80 to 82.\<close>

definition alphaIsZero :: "('a::{zero_neq_one,plus,minus,times}) cplx \<Rightarrow> bool" where
  "alphaIsZero alpha = (re alpha = 0 \<and> im alpha = 0)"

definition betaIsOne :: "('a::{zero_neq_one,plus,minus,times}) cplx \<Rightarrow> bool" where
  "betaIsOne beta = (re beta = 1 \<and> im beta = 0)"

definition betaIsZero :: "('a::{zero_neq_one,plus,minus,times}) cplx \<Rightarrow> bool" where
  "betaIsZero beta = (re beta = 0 \<and> im beta = 0)"

text \<open>Lines 77 to 176: the kernel after validation, on the two arrays of \<open>y\<close>.\<close>

definition chbmv_kernel ::
  "string \<Rightarrow> int \<Rightarrow> int \<Rightarrow> 'a cplx \<Rightarrow> 'a fpArray \<Rightarrow> 'a fpArray \<Rightarrow> (int \<Rightarrow> int)
     \<Rightarrow> int \<Rightarrow> 'a fpArray \<Rightarrow> 'a fpArray \<Rightarrow> int \<Rightarrow> 'a cplx \<Rightarrow> int \<Rightarrow> int
     \<Rightarrow> 'a fpArray \<times> 'a fpArray \<Rightarrow> ('a::{zero_neq_one,plus,minus,times}) fpArray \<times> 'a fpArray" where
  "chbmv_kernel ul n k alpha ar ai colA xbase xr xi incx beta ybase incy y =
     (let AlphaRe = re alpha; AlphaIm = im alpha;
          BetaRe = re beta; BetaIm = im beta
      in if n = 0 \<or> (alphaIsZero alpha \<and> betaIsOne beta) then y
         else
           let kx = (if incx > 0 then 1 else 1 - (n - 1) * incx);
               ky = (if incy > 0 then 1 else 1 - (n - 1) * incy);
               y1 = chbmv_scale (betaIsOne beta) (betaIsZero beta) BetaRe BetaIm n incy ky y
           in if alphaIsZero alpha then y1
              else
                let jx = kx - xbase; jy = ky - ybase
                in if ul = ''u'' then
                     (case fold (chbmv_upper_col AlphaRe AlphaIm k ar ai colA xr xi xbase ybase incx incy)
                             [1..n] (fst y1, snd y1, jx, jy, kx, ky)
                      of (yr, yi, _) \<Rightarrow> (yr, yi))
                   else
                     (case fold (chbmv_lower_col AlphaRe AlphaIm n k ar ai colA xr xi incx incy)
                             [1..n] (fst y1, snd y1, jx, jy)
                      of (yr, yi, _) \<Rightarrow> (yr, yi)))"

text \<open>The whole routine. \<open>errMissingIm\<close> and \<open>errWrongArg\<close> format a message from their
  arguments; the error value keeps the arguments.\<close>

definition chbmv ::
  "string \<Rightarrow> int \<Rightarrow> int \<Rightarrow> 'a cplx \<Rightarrow> 'a Matrix \<Rightarrow> int \<Rightarrow> 'a FortranArr \<Rightarrow> int \<Rightarrow> 'a cplx
     \<Rightarrow> 'a FortranArr \<Rightarrow> int \<Rightarrow> ('a::{zero_neq_one,plus,minus,times}) FortranArr outcome" where
  "chbmv uplo n k alpha a lda x incx beta y incy =
     (case mi a of None \<Rightarrow> Threw (MissingImaginaryComponent ''a.i'') y | Some ai \<Rightarrow>
     (case vi x of None \<Rightarrow> Threw (MissingImaginaryComponent ''x.i'') y | Some xi \<Rightarrow>
     (case vi y of None \<Rightarrow> Threw (MissingImaginaryComponent ''y.i'') y | Some yi \<Rightarrow>
        (let ul = fromCharCode (charCodeAt0 uplo OR 32);
             info = chbmv_info ul n k lda incx incy
         in if info \<noteq> 0 then Threw (InvalidArgument ''chbmv'' info) y
            else (case chbmv_kernel ul n k alpha (mr a) ai (colOfEx a) (base x) (vr x) xi incx
                         beta (base y) incy (vr y, yi)
                  of (yr', yi') \<Rightarrow> Returned (y\<lparr>vr := yr', vi := Some yi'\<rparr>))))))"

section \<open>strmm\<close>

text \<open>
  Modelled from the spec: \<open>lowerChar\<close> of \<open>f_func\<close>, which the sources do not
  contain. The spec leaves the parsing of the argument codes to it; every call site in
  strmm carries, as a comment, the expression it stands for,
  \<open>String.fromCharCode(side.charCodeAt(0) | 0X20)\<close>, which chbmv writes out inline.
\<close>

definition lowerChar :: "string \<Rightarrow> string" where
  "lowerChar c = fromCharCode (charCodeAt0 c OR 32)"

text \<open>
  Modelled from the spec: \<open>setCol\<close> of the matrix object, which the sources do not
  contain. For \<open>alpha == 0\<close> the spec has the kernel "set every element of \<open>B\<close> to zero";
  \<open>b.setCol(j, rowStart, rowEnd, value)\<close> stores \<open>value\<close> at the rows \<open>rowStart\<close> to
  \<open>rowEnd\<close> of column \<open>j\<close>, at the indices \<open>colOfEx(j) + i\<close> that the kernel itself
  uses for \<open>B[i,j]\<close>, in the real array and in the imaginary one when there is one.
\<close>

definition setCol :: "'a Matrix \<Rightarrow> int \<Rightarrow> int \<Rightarrow> int \<Rightarrow> 'a \<Rightarrow> 'a Matrix" where
  "setCol b col rowStart rowEnd v =
     (let coords = colOfEx b col;
          fill = (\<lambda>arr p. if coords + rowStart \<le> p \<and> p \<le> coords + rowEnd then v else arr p)
      in b\<lparr>mr := fill (mr b), mi := map_option fill (mi b)\<rparr>)"

definition strmm_info ::
  "string \<Rightarrow> string \<Rightarrow> string \<Rightarrow> string \<Rightarrow> int \<Rightarrow> int \<Rightarrow> int \<Rightarrow> int \<Rightarrow> int \<Rightarrow> nat" where
  "strmm_info si ul tr di m n nrowA lda ldb =
     (if \<not> includes_str ''lr'' si then 1
      else if \<not> includes_str ''ul'' ul then 2
      else if \<not> includes_str ''ntc'' tr then 3
      else if \<not> includes_str ''un'' di then 4
      else if m < 0 then 5
      else if n < 0 then 6
      else if lda < max 1 nrowA then 9
      else if ldb < max 1 m then 11
      else 0)"

text \<open>The eight loop nests, on the real array of \<open>B\<close>. A loop that counts down runs over
  the reversed range.\<close>

text \<open>Lines 98 to 111: \<open>B := alpha*A*B\<close>, \<open>A\<close> upper.\<close>

definition strmm_left_n_upper ::
  "bool \<Rightarrow> int \<Rightarrow> int \<Rightarrow> 'a \<Rightarrow> 'a fpArray \<Rightarrow> (int \<Rightarrow> int) \<Rightarrow> (int \<Rightarrow> int)
     \<Rightarrow> 'a fpArray \<Rightarrow> ('a::{zero,one,plus,times}) fpArray" where
  "strmm_left_n_upper nounit m n alpha ar colA colB =
     fold (\<lambda>j. let coorBJ = colB j in
       fold (\<lambda>k br. let coorAK = colA k in
         if br (coorBJ + k) \<noteq> 0 then
           let temp = alpha * br (coorBJ + k);
               br1 = fold (\<lambda>i br. br(coorBJ + i := br (coorBJ + i) + temp * ar (coorAK + i)))
                       [1 .. k - 1] br;
               temp1 = (if nounit then temp * ar (coorAK + k) else temp)
           in br1(coorBJ + k := temp1)
         else br) [1..m]) [1..n]"

text \<open>Lines 114 to 129: \<open>B := alpha*A*B\<close>, \<open>A\<close> lower.\<close>

definition strmm_left_n_lower ::
  "bool \<Rightarrow> int \<Rightarrow> int \<Rightarrow> 'a \<Rightarrow> 'a fpArray \<Rightarrow> (int \<Rightarrow> int) \<Rightarrow> (int \<Rightarrow> int)
     \<Rightarrow> 'a fpArray \<Rightarrow> ('a::{zero,one,plus,times}) fpArray" where
  "strmm_left_n_lower nounit m n alpha ar colA colB =
     fold (\<lambda>j. let coorBJ = colB j in
       fold (\<lambda>k br. let coorAK = colA k in
         if br (coorBJ + k) \<noteq> 0 then
           let temp = alpha * br (coorBJ + k);
               br1 = br(coorBJ + k := temp);
               br2 = (if nounit then br1(coorBJ + k := br1 (coorBJ + k) * ar (coorAK + k)) else br1)
           in fold (\<lambda>i br. br(coorBJ + i := br (coorBJ + i) + temp * ar (coorAK + i)))
                [k + 1 .. m] br2
         else br) (rev [1..m])) [1..n]"

text \<open>Lines 135 to 146: \<open>B := alpha*A**T*B\<close>, \<open>A\<close> upper.\<close>

definition strmm_left_t_upper ::
  "bool \<Rightarrow> int \<Rightarrow> int \<Rightarrow> 'a \<Rightarrow> 'a fpArray \<Rightarrow> (int \<Rightarrow> int) \<Rightarrow> (int \<Rightarrow> int)
     \<Rightarrow> 'a fpArray \<Rightarrow> ('a::{zero,one,plus,times}) fpArray" where
  "strmm_left_t_upper nounit m n alpha ar colA colB =
     fold (\<lambda>j. let coorBJ = colB j in
       fold (\<lambda>i br.
         let temp = br (coorBJ + i);
             coorAI = colA i;
             temp1 = (if nounit then temp * ar (coorAI + i) else temp);
             temp2 = fold (\<lambda>k temp. temp + ar (coorAI + k) * br (coorBJ + k)) [1 .. i - 1] temp1
         in br(coorBJ + i := alpha * temp2)) (rev [1..m])) [1..n]"

text \<open>Lines 149 to 160: \<open>B := alpha*A**T*B\<close>, \<open>A\<close> lower.\<close>

definition strmm_left_t_lower ::
  "bool \<Rightarrow> int \<Rightarrow> int \<Rightarrow> 'a \<Rightarrow> 'a fpArray \<Rightarrow> (int \<Rightarrow> int) \<Rightarrow> (int \<Rightarrow> int)
     \<Rightarrow> 'a fpArray \<Rightarrow> ('a::{zero,one,plus,times}) fpArray" where
  "strmm_left_t_lower nounit m n alpha ar colA colB =
     fold (\<lambda>j. let coorBJ = colB j in
       fold (\<lambda>i br.
         let coorAI = colA i;
             temp = br (coorBJ + i);
             temp1 = (if nounit then temp * ar (coorAI + i) else temp);
             temp2 = fold (\<lambda>k temp. temp + ar (coorAI + k) * br (coorBJ + k)) [i + 1 .. m] temp1
         in br(coorBJ + i := alpha * temp2)) [1..m]) [1..n]"

text \<open>The update \<open>B[:,j] += temp * B[:,k]\<close> over the rows 1 to \<open>m\<close>, which the four
  right-side nests share (lines 182 to 184, 205 to 207, 223 to 225, 245 to 247).\<close>

definition strmm_axpy_col :: "int \<Rightarrow> 'a \<Rightarrow> int \<Rightarrow> int \<Rightarrow> 'a fpArray \<Rightarrow> ('a::{zero,one,plus,times}) fpArray" where
  "strmm_axpy_col m temp coorBJ coorBK =
     fold (\<lambda>i br. br(coorBJ + i := br (coorBJ + i) + temp * br (coorBK + i))) [1..m]"

text \<open>Lines 168 to 187: \<open>B := alpha*B*A\<close>, \<open>A\<close> upper.\<close>

definition strmm_right_n_upper ::
  "bool \<Rightarrow> int \<Rightarrow> int \<Rightarrow> 'a \<Rightarrow> 'a fpArray \<Rightarrow> (int \<Rightarrow> int) \<Rightarrow> (int \<Rightarrow> int)
     \<Rightarrow> 'a fpArray \<Rightarrow> ('a::{zero,one,plus,times}) fpArray" where
  "strmm_right_n_upper nounit m n alpha ar colA colB =
     fold (\<lambda>j br.
       let temp = alpha;
           coorAJ = colA j;
           coorBJ = colB j;
           temp1 = (if nounit then temp * ar (coorAJ + j) else temp);
           br1 = fold (\<lambda>i br. br(coorBJ + i := br (coorBJ + i) * temp1)) [1..m] br
       in fold (\<lambda>k br. let coorBK = colB k in
            if ar (coorAJ + k) \<noteq> 0
            then strmm_axpy_col m (alpha * ar (coorAJ + k)) coorBJ coorBK br
            else br) [1 .. j - 1] br1) (rev [1..n])"

text \<open>Lines 191 to 210: \<open>B := alpha*B*A\<close>, \<open>A\<close> lower.\<close>

definition strmm_right_n_lower ::
  "bool \<Rightarrow> int \<Rightarrow> int \<Rightarrow> 'a \<Rightarrow> 'a fpArray \<Rightarrow> (int \<Rightarrow> int) \<Rightarrow> (int \<Rightarrow> int)
     \<Rightarrow> 'a fpArray \<Rightarrow> ('a::{zero,one,plus,times}) fpArray" where
  "strmm_right_n_lower nounit m n alpha ar colA colB =
     fold (\<lambda>j br.
       let coorAJ = colA j;
           coorBJ = colB j;
           temp = alpha;
           temp1 = (if nounit then temp * ar (coorAJ + j) else temp);
           br1 = fold (\<lambda>i br. br(coorBJ + i := br (coorBJ + i) * temp1)) [1..m] br
       in fold (\<lambda>k br. let coorBK = colB k in
            if ar (coorAJ + k) \<noteq> 0
            then strmm_axpy_col m (alpha * ar (coorAJ + k)) coorBJ coorBK br
            else br) [j + 1 .. n] br1) [1..n]"

text \<open>Lines 216 to 235: \<open>B := alpha*B*A**T\<close>, \<open>A\<close> upper.\<close>

definition strmm_right_t_upper ::
  "bool \<Rightarrow> int \<Rightarrow> int \<Rightarrow> 'a \<Rightarrow> 'a fpArray \<Rightarrow> (int \<Rightarrow> int) \<Rightarrow> (int \<Rightarrow> int)
     \<Rightarrow> 'a fpArray \<Rightarrow> ('a::{zero,one,plus,times}) fpArray" where
  "strmm_right_t_upper nounit m n alpha ar colA colB =
     fold (\<lambda>k br.
       let coorAK = colA k;
           coorBK = colB k;
           br1 = fold (\<lambda>j br. let coorBJ = colB j in
                   if ar (coorAK + j) \<noteq> 0
                   then strmm_axpy_col m (alpha * ar (coorAK + j)) coorBJ coorBK br
                   else br) [1 .. k - 1] br;
           temp = alpha;
           temp1 = (if nounit then temp * ar (coorAK + k) else temp)
       in if temp1 \<noteq> 1
          then fold (\<lambda>i br. br(coorBK + i := temp1 * br (coorBK + i))) [1..m] br1
          else br1) [1..n]"

text \<open>Lines 238 to 257: \<open>B := alpha*B*A**T\<close>, \<open>A\<close> lower.\<close>

definition strmm_right_t_lower ::
  "bool \<Rightarrow> int \<Rightarrow> int \<Rightarrow> 'a \<Rightarrow> 'a fpArray \<Rightarrow> (int \<Rightarrow> int) \<Rightarrow> (int \<Rightarrow> int)
     \<Rightarrow> 'a fpArray \<Rightarrow> ('a::{zero,one,plus,times}) fpArray" where
  "strmm_right_t_lower nounit m n alpha ar colA colB =
     fold (\<lambda>k br.
       let coorAK = colA k;
           coorBK = colB k;
           br1 = fold (\<lambda>j br. let coorBJ = colB j in
                   if ar (coorAK + j) \<noteq> 0
                   then strmm_axpy_col m (alpha * ar (coorAK + j)) coorBJ coorBK br
                   else br) [k + 1 .. n] br;
           temp = alpha;
           temp1 = (if nounit then temp * ar (coorAK + k) else temp)
       in if temp1 \<noteq> 1
          then fold (\<lambda>i br. br(coorBK + i := br (coorBK + i) * temp1)) [1..m] br1
          else br1) (rev [1..n])"

text \<open>Lines 94 to 260: the choice of the nest.\<close>

definition strmm_compute ::
  "bool \<Rightarrow> string \<Rightarrow> bool \<Rightarrow> bool \<Rightarrow> int \<Rightarrow> int \<Rightarrow> 'a \<Rightarrow> 'a fpArray \<Rightarrow> (int \<Rightarrow> int) \<Rightarrow> (int \<Rightarrow> int)
     \<Rightarrow> 'a fpArray \<Rightarrow> ('a::{zero,one,plus,times}) fpArray" where
  "strmm_compute lside tr upper nounit m n alpha ar colA colB =
     (if lside then
        (if tr = ''n'' then
           (if upper then strmm_left_n_upper nounit m n alpha ar colA colB
            else strmm_left_n_lower nounit m n alpha ar colA colB)
         else
           (if upper then strmm_left_t_upper nounit m n alpha ar colA colB
            else strmm_left_t_lower nounit m n alpha ar colA colB))
      else
        (if tr = ''n'' then
           (if upper then strmm_right_n_upper nounit m n alpha ar colA colB
            else strmm_right_n_lower nounit m n alpha ar colA colB)
         else
           (if upper then strmm_right_t_upper nounit m n alpha ar colA colB
            else strmm_right_t_lower nounit m n alpha ar colA colB)))"

definition strmm ::
  "string \<Rightarrow> string \<Rightarrow> string \<Rightarrow> string \<Rightarrow> int \<Rightarrow> int \<Rightarrow> 'a \<Rightarrow> 'a Matrix \<Rightarrow> int \<Rightarrow> 'a Matrix \<Rightarrow> int
     \<Rightarrow> ('a::{zero,one,plus,times}) Matrix outcome" where
  "strmm side uplo transA diag m n alpha a lda b ldb =
     (let si = lowerChar side;
          ul = lowerChar uplo;
          tr = lowerChar transA;
          di = lowerChar diag;
          lside = (si = ''l'');
          nrowA = (if lside then m else n);
          nounit = (di = ''n'');
          upper = (ul = ''u'');
          info = strmm_info si ul tr di m n nrowA lda ldb
      in if info \<noteq> 0 then Threw (InvalidArgument ''strmm'' info) b
         else if m = 0 \<or> n = 0 then Returned b
         else if alpha = 0 then Returned (fold (\<lambda>j b. setCol b j 1 m 0) [1..n] b)
         else Returned (b\<lparr>mr := strmm_compute lside tr upper nounit m n alpha (mr a)
                                   (colOfEx a) (colOfEx b) (mr b)\<rparr>))"

section \<open>Concrete inputs\<close>

text \<open>A Hermitian band matrix of order 1 with no off-diagonal (\<open>k = 0\<close>, \<open>lda = 1\<close>): the
  single entry \<open>2\<close>. The vectors \<open>x = [1]\<close> and \<open>y = [5]\<close>, both with base 1.\<close>

definition band_2 :: "real Matrix" where
  "band_2 = \<lparr>mr = fpArray_of [2], mi = Some (fpArray_of [0]), colOfEx = column_major 1\<rparr>"

definition vec_1 :: "real FortranArr" where
  "vec_1 = \<lparr>base = 1, vr = fpArray_of [1], vi = Some (fpArray_of [0])\<rparr>"

definition vec_5 :: "real FortranArr" where
  "vec_5 = \<lparr>base = 1, vr = fpArray_of [5], vi = Some (fpArray_of [0])\<rparr>"

definition c_of :: "real \<Rightarrow> real cplx" where
  "c_of v = \<lparr>re = v, im = 0\<rparr>"

text \<open>The upper triangular \<open>A\<close> with \<open>A[1,1] = 3\<close>, \<open>A[1,2] = 5\<close>, \<open>A[2,2] = 7\<close> and the
  column \<open>B = [1; 1]\<close>, column-major with leading dimension 2. \<open>upper_diag d1 d2\<close> is the
  same \<open>A\<close> with another diagonal.\<close>

definition upper_diag :: "real \<Rightarrow> real \<Rightarrow> real Matrix" where
  "upper_diag d1 d2 = \<lparr>mr = fpArray_of [d1, 0, 5, d2], mi = None, colOfEx = column_major 2\<rparr>"

definition upper_357 :: "real Matrix" where
  "upper_357 = upper_diag 3 7"

definition col_11 :: "real Matrix" where
  "col_11 = \<lparr>mr = fpArray_of [1, 1], mi = None, colOfEx = column_major 2\<rparr>"

definition row_11 :: "real Matrix" where
  "row_11 = \<lparr>mr = fpArray_of [1, 1], mi = None, colOfEx = column_major 1\<rparr>"

section \<open>Numbers with infinities and NaN\<close>

text \<open>
  JavaScript numbers with their non-finite values, for a call whose array holds an
  \<open>Infinity\<close>: the finite numbers are integers with exact arithmetic, which is what
  floating point computes on the small integers of that call; \<open>PInf\<close> and \<open>NInf\<close> are
  the two infinities. The operations follow the IEEE rules: NaN absorbs, \<open>Infinity -
  Infinity\<close> and \<open>0 * Infinity\<close> are NaN, and the sign of an infinite product is the
  product of the signs.
\<close>

datatype jsnum = Fin int | PInf | NInf | NaN

fun js_neg :: "jsnum \<Rightarrow> jsnum" where
  "js_neg (Fin a) = Fin (- a)"
| "js_neg PInf = NInf"
| "js_neg NInf = PInf"
| "js_neg NaN = NaN"

fun js_add :: "jsnum \<Rightarrow> jsnum \<Rightarrow> jsnum" where
  "js_add NaN _ = NaN"
| "js_add _ NaN = NaN"
| "js_add (Fin a) (Fin b) = Fin (a + b)"
| "js_add PInf NInf = NaN"
| "js_add NInf PInf = NaN"
| "js_add PInf _ = PInf"
| "js_add _ PInf = PInf"
| "js_add NInf _ = NInf"
| "js_add _ NInf = NInf"

definition js_inf :: "bool \<Rightarrow> jsnum" where
  "js_inf positive = (if positive then PInf else NInf)"

fun js_mul :: "jsnum \<Rightarrow> jsnum \<Rightarrow> jsnum" where
  "js_mul NaN _ = NaN"
| "js_mul _ NaN = NaN"
| "js_mul (Fin a) (Fin b) = Fin (a * b)"
| "js_mul (Fin a) PInf = (if a = 0 then NaN else js_inf (0 < a))"
| "js_mul (Fin a) NInf = (if a = 0 then NaN else js_inf (a < 0))"
| "js_mul PInf (Fin b) = (if b = 0 then NaN else js_inf (0 < b))"
| "js_mul NInf (Fin b) = (if b = 0 then NaN else js_inf (b < 0))"
| "js_mul PInf PInf = PInf"
| "js_mul NInf NInf = PInf"
| "js_mul PInf NInf = NInf"
| "js_mul NInf PInf = NInf"

instantiation jsnum :: "{zero_neq_one,plus,minus,times}"
begin

definition zero_jsnum :: jsnum where "zero_jsnum = Fin 0"

definition one_jsnum :: jsnum where "one_jsnum = Fin 1"

definition plus_jsnum :: "jsnum \<Rightarrow> jsnum \<Rightarrow> jsnum" where "plus_jsnum a b = js_add a b"

definition minus_jsnum :: "jsnum \<Rightarrow> jsnum \<Rightarrow> jsnum" where "minus_jsnum a b = js_add a (js_neg b)"

definition times_jsnum :: "jsnum \<Rightarrow> jsnum \<Rightarrow> jsnum" where "times_jsnum a b = js_mul a b"

instance
  by standard (simp add: zero_jsnum_def one_jsnum_def)

end

text \<open>The Hermitian matrix \<open>[[2, 1+i], [1-i, 3]]\<close> in upper band storage with \<open>k = 1\<close>
  and \<open>lda = 2\<close>; the vector \<open>x = [1, 1]\<close>; and an array of four elements that holds a
  vector \<open>y = [5, 7]\<close> with stride 2 and base 1, at the indices 0 and 2. The element of
  \<open>y.i\<close> at index 1, between the two, is \<open>Infinity\<close>.\<close>

definition js_band_2x2 :: "jsnum Matrix" where
  "js_band_2x2 = \<lparr>mr = fpArray_of [Fin 0, Fin 2, Fin 1, Fin 3],
                  mi = Some (fpArray_of [Fin 0, Fin 0, Fin 1, Fin 0]),
                  colOfEx = column_major 2\<rparr>"

definition js_vec_11 :: "jsnum FortranArr" where
  "js_vec_11 = \<lparr>base = 1, vr = fpArray_of [Fin 1, Fin 1], vi = Some (fpArray_of [Fin 0, Fin 0])\<rparr>"

definition js_vec_5678 :: "jsnum FortranArr" where
  "js_vec_5678 = \<lparr>base = 1, vr = fpArray_of [Fin 5, Fin 6, Fin 7, Fin 8],
                  vi = Some (fpArray_of [Fin 0, PInf, Fin 0, Fin 0])\<rparr>"

section \<open>Strided positions\<close>

text \<open>The \<open>n\<close> indices \<open>start\<close>, \<open>start + inc\<close>, ... that a loop over a vector of \<open>n\<close>
  elements with stride \<open>inc\<close> visits.\<close>

definition on_stride :: "int \<Rightarrow> int \<Rightarrow> int \<Rightarrow> int \<Rightarrow> bool" where
  "on_stride start inc n p = (p \<in> set (map (\<lambda>t. start + t * inc) [0 .. n - 1]))"

section \<open>Argument codes\<close>

lemma lowerChar_codes:
  "lowerChar ''x'' = ''x''" "lowerChar ''c'' = ''c''" "lowerChar ''t'' = ''t''"
  "lowerChar ''n'' = ''n''" "lowerChar ''l'' = ''l''" "lowerChar ''u'' = ''u''"
  "lowerChar ''r'' = ''r''"
  by code_simp+

lemma fromCharCode_codes:
  "fromCharCode (charCodeAt0 ''x'' OR 32) = ''x''"
  "fromCharCode (charCodeAt0 ''u'' OR 32) = ''u''"
  "fromCharCode (charCodeAt0 ''l'' OR 32) = ''l''"
  using lowerChar_codes by (simp_all add: lowerChar_def)

lemma upto_small: "[1..2] = [1, 2::int]" "[1..1] = [1::int]" "[1..0] = ([]::int list)"
  by (simp_all add: upto_rec1)

text \<open>\<open>lowerChar\<close> returns a single character, on which \<open>includes\<close> is membership.\<close>

lemma includes_lowerChar:
  "includes_str ''lr'' (lowerChar s) = (lowerChar s \<in> {''l'', ''r''})"
  "includes_str ''ul'' (lowerChar s) = (lowerChar s \<in> {''u'', ''l''})"
  "includes_str ''ntc'' (lowerChar s) = (lowerChar s \<in> {''n'', ''t'', ''c''})"
  "includes_str ''un'' (lowerChar s) = (lowerChar s \<in> {''u'', ''n''})"
  by (auto simp add: lowerChar_def fromCharCode_def)

lemma strmm_unfold:
  "strmm side uplo transA diag m n alpha a lda b ldb =
     (if strmm_info (lowerChar side) (lowerChar uplo) (lowerChar transA) (lowerChar diag) m n
           (if lowerChar side = ''l'' then m else n) lda ldb \<noteq> 0
      then Threw (InvalidArgument ''strmm''
             (strmm_info (lowerChar side) (lowerChar uplo) (lowerChar transA) (lowerChar diag) m n
                (if lowerChar side = ''l'' then m else n) lda ldb)) b
      else if m = 0 \<or> n = 0 then Returned b
      else if alpha = 0 then Returned (fold (\<lambda>j b. setCol b j 1 m 0) [1..n] b)
      else Returned (b\<lparr>mr := strmm_compute (lowerChar side = ''l'') (lowerChar transA)
                                (lowerChar uplo = ''u'') (lowerChar diag = ''n'') m n alpha (mr a)
                                (colOfEx a) (colOfEx b) (mr b)\<rparr>))"
  by (simp add: strmm_def Let_def)

section \<open>Validation\<close>



text \<open>
  C4. strmm checks its arguments in a fixed order: the side code (position 1), the uplo
  code (2), the transA code (3), the diag code (4), \<open>m < 0\<close> (5), \<open>n < 0\<close> (6),
  \<open>lda < max(1, nrowA)\<close> with \<open>nrowA = m\<close> on the left side and \<open>n\<close> otherwise (9),
  \<open>ldb < max(1, m)\<close> (11). The first check that fails decides the position, and the call
  throws with \<open>B\<close> as it was passed in; when none fails the call returns. With side
  \<open>x\<close> the call throws at position 1 whatever the other arguments are.
\<close>

theorem strmm_validation_order:
  assumes "si = lowerChar side" and "ul = lowerChar uplo" and "tr = lowerChar transA"
    and "di = lowerChar diag" and "nrowA = (if si = ''l'' then m else n)"
  shows "(si \<notin> {''l'', ''r''} \<longrightarrow>
            strmm side uplo transA diag m n alpha a lda b ldb = Threw (InvalidArgument ''strmm'' 1) b)
       \<and> (si \<in> {''l'', ''r''} \<and> ul \<notin> {''u'', ''l''} \<longrightarrow>
            strmm side uplo transA diag m n alpha a lda b ldb = Threw (InvalidArgument ''strmm'' 2) b)
       \<and> (si \<in> {''l'', ''r''} \<and> ul \<in> {''u'', ''l''} \<and> tr \<notin> {''n'', ''t'', ''c''} \<longrightarrow>
            strmm side uplo transA diag m n alpha a lda b ldb = Threw (InvalidArgument ''strmm'' 3) b)
       \<and> (si \<in> {''l'', ''r''} \<and> ul \<in> {''u'', ''l''} \<and> tr \<in> {''n'', ''t'', ''c''}
            \<and> di \<notin> {''u'', ''n''} \<longrightarrow>
            strmm side uplo transA diag m n alpha a lda b ldb = Threw (InvalidArgument ''strmm'' 4) b)
       \<and> (si \<in> {''l'', ''r''} \<and> ul \<in> {''u'', ''l''} \<and> tr \<in> {''n'', ''t'', ''c''}
            \<and> di \<in> {''u'', ''n''} \<and> m < 0 \<longrightarrow>
            strmm side uplo transA diag m n alpha a lda b ldb = Threw (InvalidArgument ''strmm'' 5) b)
       \<and> (si \<in> {''l'', ''r''} \<and> ul \<in> {''u'', ''l''} \<and> tr \<in> {''n'', ''t'', ''c''}
            \<and> di \<in> {''u'', ''n''} \<and> 0 \<le> m \<and> n < 0 \<longrightarrow>
            strmm side uplo transA diag m n alpha a lda b ldb = Threw (InvalidArgument ''strmm'' 6) b)
       \<and> (si \<in> {''l'', ''r''} \<and> ul \<in> {''u'', ''l''} \<and> tr \<in> {''n'', ''t'', ''c''}
            \<and> di \<in> {''u'', ''n''} \<and> 0 \<le> m \<and> 0 \<le> n \<and> lda < max 1 nrowA \<longrightarrow>
            strmm side uplo transA diag m n alpha a lda b ldb = Threw (InvalidArgument ''strmm'' 9) b)
       \<and> (si \<in> {''l'', ''r''} \<and> ul \<in> {''u'', ''l''} \<and> tr \<in> {''n'', ''t'', ''c''}
            \<and> di \<in> {''u'', ''n''} \<and> 0 \<le> m \<and> 0 \<le> n \<and> max 1 nrowA \<le> lda
            \<and> ldb < max 1 m \<longrightarrow>
            strmm side uplo transA diag m n alpha a lda b ldb = Threw (InvalidArgument ''strmm'' 11) b)
       \<and> (si \<in> {''l'', ''r''} \<and> ul \<in> {''u'', ''l''} \<and> tr \<in> {''n'', ''t'', ''c''}
            \<and> di \<in> {''u'', ''n''} \<and> 0 \<le> m \<and> 0 \<le> n \<and> max 1 nrowA \<le> lda
            \<and> max 1 m \<le> ldb \<longrightarrow>
            (\<exists>b'. strmm side uplo transA diag m n alpha a lda b ldb = Returned b'))
       \<and> strmm ''x'' uplo transA diag m n alpha a lda b ldb = Threw (InvalidArgument ''strmm'' 1) b"
proof -
  have x: "strmm ''x'' uplo transA diag m n alpha a lda b ldb
             = Threw (InvalidArgument ''strmm'' 1) b"
    by (simp add: strmm_def strmm_info_def lowerChar_codes Let_def)
  have info: "strmm_info si ul tr di m n nrowA lda ldb =
     (if si \<notin> {''l'', ''r''} then 1
      else if ul \<notin> {''u'', ''l''} then 2
      else if tr \<notin> {''n'', ''t'', ''c''} then 3
      else if di \<notin> {''u'', ''n''} then 4
      else if m < 0 then 5
      else if n < 0 then 6
      else if lda < max 1 nrowA then 9
      else if ldb < max 1 m then 11
      else 0)"
    unfolding strmm_info_def assms(1-4) includes_lowerChar by (rule refl)
  have run: "strmm side uplo transA diag m n alpha a lda b ldb =
     (if strmm_info si ul tr di m n nrowA lda ldb \<noteq> 0
      then Threw (InvalidArgument ''strmm'' (strmm_info si ul tr di m n nrowA lda ldb)) b
      else if m = 0 \<or> n = 0 then Returned b
      else if alpha = 0 then Returned (fold (\<lambda>j b. setCol b j 1 m 0) [1..n] b)
      else Returned (b\<lparr>mr := strmm_compute (si = ''l'') tr (ul = ''u'') (di = ''n'') m n alpha
                                (mr a) (colOfEx a) (colOfEx b) (mr b)\<rparr>))"
    unfolding assms by (rule strmm_unfold)
  show ?thesis
    unfolding run info using x by (intro conjI impI) (auto simp add: max_def)
qed

theorem strmm_validation_order_witness:
  "strmm ''x'' ''x'' ''x'' ''x'' (-1) (-1) 2 upper_357 0 col_11 0
      = Threw (InvalidArgument ''strmm'' 1) col_11
   \<and> strmm ''l'' ''x'' ''x'' ''x'' (-1) (-1) 2 upper_357 0 col_11 0
      = Threw (InvalidArgument ''strmm'' 2) col_11
   \<and> strmm ''l'' ''u'' ''x'' ''x'' (-1) (-1) 2 upper_357 0 col_11 0
      = Threw (InvalidArgument ''strmm'' 3) col_11
   \<and> strmm ''l'' ''u'' ''n'' ''x'' (-1) (-1) 2 upper_357 0 col_11 0
      = Threw (InvalidArgument ''strmm'' 4) col_11
   \<and> strmm ''l'' ''u'' ''n'' ''n'' (-1) (-1) 2 upper_357 0 col_11 0
      = Threw (InvalidArgument ''strmm'' 5) col_11
   \<and> strmm ''l'' ''u'' ''n'' ''n'' 2 (-1) 2 upper_357 0 col_11 0
      = Threw (InvalidArgument ''strmm'' 6) col_11
   \<and> strmm ''l'' ''u'' ''n'' ''n'' 2 1 2 upper_357 1 col_11 0
      = Threw (InvalidArgument ''strmm'' 9) col_11
   \<and> strmm ''r'' ''u'' ''n'' ''n'' 2 1 2 upper_357 1 col_11 1
      = Threw (InvalidArgument ''strmm'' 11) col_11
   \<and> (\<exists>b'. strmm ''l'' ''u'' ''n'' ''n'' 2 1 2 upper_357 2 col_11 2 = Returned b')"
proof -
  note v = strmm_validation_order [OF refl refl refl refl refl, where alpha = "2::real"
      and a = upper_357 and b = col_11]
  show ?thesis
    using v [of "''x''" "''x''" "''x''" "''x''" "-1" "-1" 0 0]
      v [of "''l''" "''x''" "''x''" "''x''" "-1" "-1" 0 0]
      v [of "''l''" "''u''" "''x''" "''x''" "-1" "-1" 0 0]
      v [of "''l''" "''u''" "''n''" "''x''" "-1" "-1" 0 0]
      v [of "''l''" "''u''" "''n''" "''n''" "-1" "-1" 0 0]
      v [of "''l''" "''u''" "''n''" "''n''" 2 "-1" 0 0]
      v [of "''l''" "''u''" "''n''" "''n''" 2 1 1 0]
      v [of "''r''" "''u''" "''n''" "''n''" 2 1 1 1]
      v [of "''l''" "''u''" "''n''" "''n''" 2 1 2 2]
    by (simp add: lowerChar_codes)
qed

section \<open>Early returns\<close>

text \<open>
  C8. A chbmv call with \<open>n = 0\<close>, or with \<open>alpha = 0\<close> and \<open>beta = 1\<close>, leaves \<open>y\<close> as
  it was passed in, and returns when the arguments are valid; a strmm call with
  \<open>m = 0\<close> or \<open>n = 0\<close> leaves \<open>B\<close> as it was passed in, and returns when the arguments
  are valid.
\<close>

theorem quick_return_leaves_output:
  "(n = 0 \<or> (alphaIsZero alpha \<and> betaIsOne beta) \<longrightarrow>
      buffer_of (chbmv uplo n k alpha a lda x incx beta y incy) = y)
   \<and> (mi a \<noteq> None \<and> vi x \<noteq> None \<and> vi y \<noteq> None
        \<and> chbmv_info (fromCharCode (charCodeAt0 uplo OR 32)) n k lda incx incy = 0
        \<and> (n = 0 \<or> (alphaIsZero alpha \<and> betaIsOne beta)) \<longrightarrow>
      chbmv uplo n k alpha a lda x incx beta y incy = Returned y)
   \<and> (m = 0 \<or> n' = 0 \<longrightarrow>
      buffer_of (strmm side uplo' transA diag m n' alpha' a' lda' b ldb) = b)
   \<and> (strmm_info (lowerChar side) (lowerChar uplo') (lowerChar transA) (lowerChar diag) m n'
          (if lowerChar side = ''l'' then m else n') lda' ldb = 0
        \<and> (m = 0 \<or> n' = 0) \<longrightarrow>
      strmm side uplo' transA diag m n' alpha' a' lda' b ldb = Returned b)"
proof -
  have c: "n = 0 \<or> (alphaIsZero alpha \<and> betaIsOne beta) \<Longrightarrow>
      buffer_of (chbmv uplo n k alpha a lda x incx beta y incy) = y
      \<and> (mi a \<noteq> None \<and> vi x \<noteq> None \<and> vi y \<noteq> None
        \<and> chbmv_info (fromCharCode (charCodeAt0 uplo OR 32)) n k lda incx incy = 0
          \<longrightarrow> chbmv uplo n k alpha a lda x incx beta y incy = Returned y)"
    by (auto simp add: chbmv_def chbmv_kernel_def Let_def split: option.splits)
  have s: "m = 0 \<or> n' = 0 \<Longrightarrow>
      buffer_of (strmm side uplo' transA diag m n' alpha' a' lda' b ldb) = b
      \<and> (strmm_info (lowerChar side) (lowerChar uplo') (lowerChar transA) (lowerChar diag) m n'
          (if lowerChar side = ''l'' then m else n') lda' ldb = 0
          \<longrightarrow> strmm side uplo' transA diag m n' alpha' a' lda' b ldb = Returned b)"
    by (auto simp add: strmm_unfold)
  from c s show ?thesis by blast
qed

theorem quick_return_leaves_output_witness:
  "chbmv ''u'' 0 0 (c_of 1) band_2 1 vec_1 1 (c_of 0) vec_5 1 = Returned vec_5
   \<and> chbmv ''u'' 1 0 (c_of 0) band_2 1 vec_1 1 (c_of 1) vec_5 1 = Returned vec_5
   \<and> strmm ''l'' ''u'' ''n'' ''n'' 0 1 2 upper_357 1 col_11 1 = Returned col_11
   \<and> strmm ''l'' ''u'' ''n'' ''n'' 2 0 2 upper_357 2 col_11 2 = Returned col_11"
proof -
  have v: "mi band_2 \<noteq> None \<and> vi vec_1 \<noteq> None \<and> vi vec_5 \<noteq> None
      \<and> chbmv_info (fromCharCode (charCodeAt0 ''u'' OR 32)) n 0 1 1 1 = 0" if "0 \<le> n" for n
    using that by (simp add: band_2_def vec_1_def vec_5_def chbmv_info_def fromCharCode_codes)
  have z: "alphaIsZero (c_of 0) \<and> betaIsOne (c_of 1)"
    by (simp add: alphaIsZero_def betaIsOne_def c_of_def)
  have w: "strmm_info (lowerChar ''l'') (lowerChar ''u'') (lowerChar ''n'') (lowerChar ''n'') m n
             (if lowerChar ''l'' = ''l'' then m else n) (max 1 m) (max 1 m) = 0"
    if "0 \<le> m" and "0 \<le> n" for m n
    using that by (simp add: strmm_info_def lowerChar_codes)
  note q = quick_return_leaves_output [where uplo = "''u''" and k = 0 and a = band_2 and lda = 1
      and x = vec_1 and incx = 1 and y = vec_5 and incy = 1 and side = "''l''" and uplo' = "''u''"
      and transA = "''n''" and diag = "''n''" and alpha' = "2::real" and a' = upper_357
      and b = col_11]
  show ?thesis
    using q [of 0 "c_of 1" "c_of 0" 0 1 1 1] q [of 1 "c_of 0" "c_of 1" 2 0 2 2]
      v [of 0] v [of 1] z w [of 0 1] w [of 2 0]
    by simp
qed

section \<open>The transpose code\<close>

lemma strmm_info_c_t:
  "strmm_info si ul ''c'' di m n nrowA lda ldb = strmm_info si ul ''t'' di m n nrowA lda ldb"
  by (simp add: strmm_info_def)

lemma strmm_compute_c_t:
  "strmm_compute lside ''c'' upper nounit m n alpha ar colA colB
     = strmm_compute lside ''t'' upper nounit m n alpha ar colA colB"
  by (simp add: strmm_compute_def)

text \<open>
  C9. The check of position 3 passes for each of the transA codes \<open>n\<close>, \<open>t\<close> and \<open>c\<close>,
  and a call with transA \<open>c\<close> has the outcome of the same call with transA \<open>t\<close>: the
  same error, or the same \<open>B\<close>.
\<close>

theorem strmm_transA_c_as_t:
  "strmm_info si ul (lowerChar ''n'') di m n nrowA lda ldb \<noteq> 3
   \<and> strmm_info si ul (lowerChar ''t'') di m n nrowA lda ldb \<noteq> 3
   \<and> strmm_info si ul (lowerChar ''c'') di m n nrowA lda ldb \<noteq> 3
   \<and> strmm side uplo ''c'' diag m n alpha a lda b ldb
       = strmm side uplo ''t'' diag m n alpha a lda b ldb"
proof -
  have "strmm side uplo ''c'' diag m n alpha a lda b ldb
          = strmm side uplo ''t'' diag m n alpha a lda b ldb"
    unfolding strmm_unfold lowerChar_codes strmm_info_c_t strmm_compute_c_t by (rule refl)
  moreover have "strmm_info si ul (lowerChar t) di m n nrowA lda ldb \<noteq> 3"
    if "t \<in> {''n'', ''t'', ''c''}" for t
    using that by (auto simp add: strmm_info_def lowerChar_codes)
  ultimately show ?thesis by simp
qed

section \<open>Concrete calls\<close>

lemmas chbmv_eval = chbmv_def chbmv_kernel_def chbmv_info_def chbmv_scale_def
  chbmv_scale_branch_def chbmv_scale_step_def chbmv_upper_col_def chbmv_upper_inner_def
  chbmv_lower_col_def chbmv_lower_inner_def alphaIsZero_def betaIsOne_def betaIsZero_def
  fromCharCode_codes band_2_def vec_1_def vec_5_def c_of_def fpArray_of_def column_major_def
  upto_small Let_def

lemmas strmm_eval = strmm_unfold strmm_info_def strmm_compute_def lowerChar_codes
  upper_357_def upper_diag_def col_11_def column_major_def fpArray_of_def upto_small Let_def

text \<open>
  C6. \<open>strmm('l','u','n','n', 2, 1, 2.0, A, 2, B, 2)\<close> with \<open>A[1,1] = 3\<close>, \<open>A[1,2] = 5\<close>,
  \<open>A[2,2] = 7\<close> and \<open>B = [1; 1]\<close> returns with \<open>B[1,1] = 16\<close> and \<open>B[2,1] = 14\<close>, in any
  storage layout; in the column-major one the array of \<open>B\<close> ends as \<open>[16, 14]\<close>.
\<close>

theorem strmm_scenario:
  fixes a b :: "real Matrix"
  assumes "mr a (colOfEx a 1 + 1) = 3" and "mr a (colOfEx a 2 + 1) = 5"
    and "mr a (colOfEx a 2 + 2) = 7"
    and "mr b (colOfEx b 1 + 1) = 1" and "mr b (colOfEx b 1 + 2) = 1"
  shows "\<exists>b'. strmm ''l'' ''u'' ''n'' ''n'' 2 1 2 a 2 b 2 = Returned b'
           \<and> mr b' (colOfEx b' 1 + 1) = 16 \<and> mr b' (colOfEx b' 1 + 2) = 14"
  using assms
  by (simp add: strmm_unfold strmm_info_def strmm_compute_def lowerChar_codes
        strmm_left_n_upper_def upto_small Let_def)

theorem strmm_scenario_witness:
  "\<exists>b'. strmm ''l'' ''u'' ''n'' ''n'' 2 1 2 upper_357 2 col_11 2 = Returned b'
      \<and> map (mr b') [0, 1] = [16, 14]"
proof -
  have "mr upper_357 (colOfEx upper_357 1 + 1) = 3" "mr upper_357 (colOfEx upper_357 2 + 1) = 5"
    "mr upper_357 (colOfEx upper_357 2 + 2) = 7"
    "mr col_11 (colOfEx col_11 1 + 1) = 1" "mr col_11 (colOfEx col_11 1 + 2) = 1"
    by (simp_all add: upper_357_def upper_diag_def col_11_def column_major_def fpArray_of_def)
  from strmm_scenario [OF this]
  obtain b' where r: "strmm ''l'' ''u'' ''n'' ''n'' 2 1 2 upper_357 2 col_11 2 = Returned b'"
    and v: "mr b' (colOfEx b' 1 + 1) = 16" "mr b' (colOfEx b' 1 + 2) = 14"
    by blast
  from r have "colOfEx b' = column_major 2"
    by (auto simp add: strmm_unfold col_11_def split: if_splits)
  with v have "map (mr b') [0, 1] = [16, 14]" by (simp add: column_major_def)
  with r show ?thesis by simp
qed

text \<open>
  C1 at a concrete call. When \<open>betaIsOne\<close> is false the scaling block returns \<open>y\<close> as it
  is; with \<open>beta = 2\<close>, \<open>alpha = 1\<close>, \<open>A = [2]\<close>, \<open>x = [1]\<close>, \<open>y = [5]\<close> the call returns
  \<open>y = [5 + 2] = [7]\<close>, where \<open>beta*y + alpha*A*x\<close> is \<open>12\<close>.
\<close>

theorem chbmv_beta_2_unscaled:
  "chbmv_scale False bz br bi n incy ky y = y
   \<and> (\<exists>y'. chbmv ''u'' 1 0 (c_of 1) band_2 1 vec_1 1 (c_of 2) vec_5 1 = Returned y'
         \<and> vr y' 0 = 7)"
  by (simp add: chbmv_eval split: prod.splits)

lemma setCol_fold_colOfEx: "colOfEx (fold (\<lambda>j b. setCol b j 1 m 0) xs b) = colOfEx b"
  by (induction xs arbitrary: b) (simp_all add: setCol_def Let_def)

lemma setCol_fold_mr:
  "mr (fold (\<lambda>j b. setCol b j 1 m 0) xs b) p
     = (if \<exists>j \<in> set xs. colOfEx b j + 1 \<le> p \<and> p \<le> colOfEx b j + m then 0 else mr b p)"
proof (induction xs arbitrary: b)
  case Nil
  show ?case by simp
next
  case (Cons x xs)
  have c: "colOfEx (setCol b x 1 m 0) = colOfEx b" by (simp add: setCol_def Let_def)
  have m: "mr (setCol b x 1 m 0) p
             = (if colOfEx b x + 1 \<le> p \<and> p \<le> colOfEx b x + m then 0 else mr b p)"
    by (simp add: setCol_def Let_def)
  show ?case
    unfolding fold_Cons comp_apply Cons.IH c m by auto
qed

text \<open>
  On the modelled \<open>setCol\<close>: with \<open>alpha = 0\<close> a valid strmm call with \<open>m > 0\<close> and
  \<open>n > 0\<close> returns with every \<open>B[i,j]\<close> zero, and \<open>A\<close> does not enter the outcome.
\<close>

lemma strmm_alpha_zero_clears:
  assumes "strmm_info (lowerChar side) (lowerChar uplo) (lowerChar transA) (lowerChar diag) m n
             (if lowerChar side = ''l'' then m else n) lda ldb = 0"
    and "m \<noteq> 0" and "n \<noteq> 0"
  shows "\<exists>b'. strmm side uplo transA diag m n 0 a lda b ldb = Returned b'
           \<and> (\<forall>i j. 1 \<le> i \<and> i \<le> m \<and> 1 \<le> j \<and> j \<le> n \<longrightarrow> mr b' (colOfEx b' j + i) = 0)"
    and "strmm side uplo transA diag m n 0 a lda b ldb = strmm side uplo transA diag m n 0 a' lda b ldb"
proof -
  let ?b' = "fold (\<lambda>j b. setCol b j 1 m 0) [1..n] b"
  have r: "strmm side uplo transA diag m n 0 a lda b ldb = Returned ?b'" for a :: "'a Matrix"
    using assms by (simp add: strmm_unfold)
  have "mr ?b' (colOfEx ?b' j + i) = 0" if "1 \<le> i" "i \<le> m" "1 \<le> j" "j \<le> n" for i j
  proof -
    have "\<exists>j' \<in> set [1..n]. colOfEx b j' + 1 \<le> colOfEx b j + i \<and> colOfEx b j + i \<le> colOfEx b j' + m"
      using that by (intro bexI [of _ j]) simp_all
    then show ?thesis
      unfolding setCol_fold_colOfEx setCol_fold_mr by simp
  qed
  with r show "\<exists>b'. strmm side uplo transA diag m n 0 a lda b ldb = Returned b'
           \<and> (\<forall>i j. 1 \<le> i \<and> i \<le> m \<and> 1 \<le> j \<and> j \<le> n \<longrightarrow> mr b' (colOfEx b' j + i) = 0)"
    by simp
  show "strmm side uplo transA diag m n 0 a lda b ldb = strmm side uplo transA diag m n 0 a' lda b ldb"
    unfolding r ..
qed

text \<open>
  C2 at a concrete call, the chbmv half. With \<open>alpha = 0\<close>, \<open>beta = 2\<close> and \<open>y = [5]\<close> the call returns
  \<open>y\<close> as it was passed in, \<open>[5]\<close>, where \<open>beta*y\<close> is \<open>10\<close>.
\<close>

theorem chbmv_alpha_0_unscaled:
  "chbmv ''u'' 1 0 (c_of 0) band_2 1 vec_1 1 (c_of 2) vec_5 1 = Returned vec_5 \<and> vr vec_5 0 = 5"
  by (simp add: chbmv_eval)

text \<open>
  C3 at a concrete call. With \<open>beta = 0\<close>, unit strides, \<open>alpha = 1\<close>, \<open>A = [2]\<close>,
  \<open>x = [1]\<close> and \<open>y = [5]\<close> the call returns \<open>y = [7]\<close>, where \<open>alpha*A*x\<close> is \<open>2\<close>: the
  \<open>5\<close> that was in \<open>y\<close> is still in the sum.
\<close>

theorem chbmv_beta_0_residual:
  "\<exists>y'. chbmv ''u'' 1 0 (c_of 1) band_2 1 vec_1 1 (c_of 0) vec_5 1 = Returned y' \<and> vr y' 0 = 7"
  by (simp add: chbmv_eval)

section \<open>Unit diagonal\<close>

lemma fold_fun_cong: "xs = ys \<Longrightarrow> (\<And>x. x \<in> set ys \<Longrightarrow> f x = g x) \<Longrightarrow> fold f xs = fold g ys"
  by (rule ext) (rule fold_cong, simp_all)

lemma left_n_upper_diag:
  assumes "\<And>i k. 1 \<le> i \<Longrightarrow> i \<le> m \<Longrightarrow> 1 \<le> k \<Longrightarrow> k \<le> m \<Longrightarrow> i \<noteq> k
             \<Longrightarrow> ar (colA k + i) = ar' (colA' k + i)"
  shows "strmm_left_n_upper False m n alpha ar colA colB
           = strmm_left_n_upper False m n alpha ar' colA' colB"
proof -
  have r: "\<And>i k. k \<in> set [1..m] \<Longrightarrow> i \<in> set [1..k - 1] \<Longrightarrow> ar (colA k + i) = ar' (colA' k + i)"
    by (simp add: assms)
  show ?thesis
    unfolding strmm_left_n_upper_def
    by (simp add: r Let_def del: set_upto cong: fold_fun_cong if_cong)
qed

lemma left_n_lower_diag:
  assumes "\<And>i k. 1 \<le> i \<Longrightarrow> i \<le> m \<Longrightarrow> 1 \<le> k \<Longrightarrow> k \<le> m \<Longrightarrow> i \<noteq> k
             \<Longrightarrow> ar (colA k + i) = ar' (colA' k + i)"
  shows "strmm_left_n_lower False m n alpha ar colA colB
           = strmm_left_n_lower False m n alpha ar' colA' colB"
proof -
  have r: "\<And>i k. k \<in> set (rev [1..m]) \<Longrightarrow> i \<in> set [k + 1..m] \<Longrightarrow> ar (colA k + i) = ar' (colA' k + i)"
    by (simp add: assms)
  show ?thesis
    unfolding strmm_left_n_lower_def
    by (simp add: r Let_def del: set_upto set_rev cong: fold_fun_cong if_cong)
qed

lemma left_t_upper_diag:
  assumes "\<And>i k. 1 \<le> i \<Longrightarrow> i \<le> m \<Longrightarrow> 1 \<le> k \<Longrightarrow> k \<le> m \<Longrightarrow> i \<noteq> k
             \<Longrightarrow> ar (colA k + i) = ar' (colA' k + i)"
  shows "strmm_left_t_upper False m n alpha ar colA colB
           = strmm_left_t_upper False m n alpha ar' colA' colB"
proof -
  have r: "\<And>i k. k \<in> set (rev [1..m]) \<Longrightarrow> i \<in> set [1..k - 1] \<Longrightarrow> ar (colA k + i) = ar' (colA' k + i)"
    by (simp add: assms)
  show ?thesis
    unfolding strmm_left_t_upper_def
    by (simp add: r Let_def del: set_upto set_rev cong: fold_fun_cong if_cong)
qed

lemma left_t_lower_diag:
  assumes "\<And>i k. 1 \<le> i \<Longrightarrow> i \<le> m \<Longrightarrow> 1 \<le> k \<Longrightarrow> k \<le> m \<Longrightarrow> i \<noteq> k
             \<Longrightarrow> ar (colA k + i) = ar' (colA' k + i)"
  shows "strmm_left_t_lower False m n alpha ar colA colB
           = strmm_left_t_lower False m n alpha ar' colA' colB"
proof -
  have r: "\<And>i k. k \<in> set ([1..m]) \<Longrightarrow> i \<in> set [k + 1..m] \<Longrightarrow> ar (colA k + i) = ar' (colA' k + i)"
    by (simp add: assms)
  show ?thesis
    unfolding strmm_left_t_lower_def
    by (simp add: r Let_def del: set_upto set_rev cong: fold_fun_cong if_cong)
qed

lemma right_n_upper_diag:
  assumes "\<And>i k. 1 \<le> i \<Longrightarrow> i \<le> n \<Longrightarrow> 1 \<le> k \<Longrightarrow> k \<le> n \<Longrightarrow> i \<noteq> k
             \<Longrightarrow> ar (colA k + i) = ar' (colA' k + i)"
  shows "strmm_right_n_upper False m n alpha ar colA colB
           = strmm_right_n_upper False m n alpha ar' colA' colB"
proof -
  have r: "\<And>i k. k \<in> set (rev [1..n]) \<Longrightarrow> i \<in> set [1..k - 1] \<Longrightarrow> ar (colA k + i) = ar' (colA' k + i)"
    by (simp add: assms)
  show ?thesis
    unfolding strmm_right_n_upper_def
    by (simp add: r Let_def del: set_upto set_rev cong: fold_fun_cong if_cong)
qed

lemma right_n_lower_diag:
  assumes "\<And>i k. 1 \<le> i \<Longrightarrow> i \<le> n \<Longrightarrow> 1 \<le> k \<Longrightarrow> k \<le> n \<Longrightarrow> i \<noteq> k
             \<Longrightarrow> ar (colA k + i) = ar' (colA' k + i)"
  shows "strmm_right_n_lower False m n alpha ar colA colB
           = strmm_right_n_lower False m n alpha ar' colA' colB"
proof -
  have r: "\<And>i k. k \<in> set ([1..n]) \<Longrightarrow> i \<in> set [k + 1..n] \<Longrightarrow> ar (colA k + i) = ar' (colA' k + i)"
    by (simp add: assms)
  show ?thesis
    unfolding strmm_right_n_lower_def
    by (simp add: r Let_def del: set_upto set_rev cong: fold_fun_cong if_cong)
qed

lemma right_t_upper_diag:
  assumes "\<And>i k. 1 \<le> i \<Longrightarrow> i \<le> n \<Longrightarrow> 1 \<le> k \<Longrightarrow> k \<le> n \<Longrightarrow> i \<noteq> k
             \<Longrightarrow> ar (colA k + i) = ar' (colA' k + i)"
  shows "strmm_right_t_upper False m n alpha ar colA colB
           = strmm_right_t_upper False m n alpha ar' colA' colB"
proof -
  have r: "\<And>i k. k \<in> set ([1..n]) \<Longrightarrow> i \<in> set [1..k - 1] \<Longrightarrow> ar (colA k + i) = ar' (colA' k + i)"
    by (simp add: assms)
  show ?thesis
    unfolding strmm_right_t_upper_def
    by (simp add: r Let_def del: set_upto set_rev cong: fold_fun_cong if_cong)
qed

lemma right_t_lower_diag:
  assumes "\<And>i k. 1 \<le> i \<Longrightarrow> i \<le> n \<Longrightarrow> 1 \<le> k \<Longrightarrow> k \<le> n \<Longrightarrow> i \<noteq> k
             \<Longrightarrow> ar (colA k + i) = ar' (colA' k + i)"
  shows "strmm_right_t_lower False m n alpha ar colA colB
           = strmm_right_t_lower False m n alpha ar' colA' colB"
proof -
  have r: "\<And>i k. k \<in> set (rev [1..n]) \<Longrightarrow> i \<in> set [k + 1..n] \<Longrightarrow> ar (colA k + i) = ar' (colA' k + i)"
    by (simp add: assms)
  show ?thesis
    unfolding strmm_right_t_lower_def
    by (simp add: r Let_def del: set_upto set_rev cong: fold_fun_cong if_cong)
qed


lemma strmm_compute_diag:
  assumes "\<And>i k. 1 \<le> i \<Longrightarrow> i \<le> (if lside then m else n) \<Longrightarrow> 1 \<le> k
             \<Longrightarrow> k \<le> (if lside then m else n) \<Longrightarrow> i \<noteq> k
             \<Longrightarrow> ar (colA k + i) = ar' (colA' k + i)"
  shows "strmm_compute lside tr upper False m n alpha ar colA colB
           = strmm_compute lside tr upper False m n alpha ar' colA' colB"
proof (cases lside)
  case True
  with assms have "\<And>i k. 1 \<le> i \<Longrightarrow> i \<le> m \<Longrightarrow> 1 \<le> k \<Longrightarrow> k \<le> m \<Longrightarrow> i \<noteq> k
             \<Longrightarrow> ar (colA k + i) = ar' (colA' k + i)"
    by simp
  with True show ?thesis
    unfolding strmm_compute_def
    using left_n_upper_diag [of m ar colA ar' colA'] left_n_lower_diag [of m ar colA ar' colA']
      left_t_upper_diag [of m ar colA ar' colA'] left_t_lower_diag [of m ar colA ar' colA']
    by simp
next
  case False
  with assms have "\<And>i k. 1 \<le> i \<Longrightarrow> i \<le> n \<Longrightarrow> 1 \<le> k \<Longrightarrow> k \<le> n \<Longrightarrow> i \<noteq> k
             \<Longrightarrow> ar (colA k + i) = ar' (colA' k + i)"
    by simp
  with False show ?thesis
    unfolding strmm_compute_def
    using right_n_upper_diag [of n ar colA ar' colA'] right_n_lower_diag [of n ar colA ar' colA']
      right_t_upper_diag [of n ar colA ar' colA'] right_t_lower_diag [of n ar colA ar' colA']
    by simp
qed

text \<open>
  C7. With the diag code \<open>u\<close>, two calls whose matrices \<open>A\<close> agree on every entry off
  the diagonal have the same outcome, for every side, uplo and transA code: the
  diagonal entries \<open>A[i,i]\<close> are not read.
\<close>

theorem strmm_unit_diag_independent:
  assumes "lowerChar diag = ''u''"
    and "nrowA = (if lowerChar side = ''l'' then m else n)"
    and "\<forall>i k. 1 \<le> i \<and> i \<le> nrowA \<and> 1 \<le> k \<and> k \<le> nrowA \<and> i \<noteq> k
           \<longrightarrow> mr a (colOfEx a k + i) = mr a' (colOfEx a' k + i)"
  shows "strmm side uplo transA diag m n alpha a lda b ldb
           = strmm side uplo transA diag m n alpha a' lda b ldb"
proof -
  have "strmm_compute (lowerChar side = ''l'') (lowerChar transA) (lowerChar uplo = ''u'') False
            m n alpha (mr a) (colOfEx a) (colOfEx b)
          = strmm_compute (lowerChar side = ''l'') (lowerChar transA) (lowerChar uplo = ''u'') False
            m n alpha (mr a') (colOfEx a') (colOfEx b)"
    by (rule strmm_compute_diag) (use assms(2,3) in simp)
  then show ?thesis
    unfolding strmm_unfold assms(1) by simp
qed

theorem strmm_unit_diag_independent_witness:
  "strmm ''l'' ''u'' ''n'' ''u'' 2 1 2 (upper_diag 3 7) 2 col_11 2
     = strmm ''l'' ''u'' ''n'' ''u'' 2 1 2 (upper_diag 100 (- 4)) 2 col_11 2
   \<and> strmm ''l'' ''u'' ''t'' ''u'' 2 1 2 (upper_diag 3 7) 2 col_11 2
     = strmm ''l'' ''u'' ''t'' ''u'' 2 1 2 (upper_diag 100 (- 4)) 2 col_11 2
   \<and> strmm ''r'' ''u'' ''n'' ''U'' 1 2 2 (upper_diag 3 7) 2 row_11 1
     = strmm ''r'' ''u'' ''n'' ''U'' 1 2 2 (upper_diag 100 (- 4)) 2 row_11 1
   \<and> strmm ''r'' ''u'' ''t'' ''U'' 1 2 2 (upper_diag 3 7) 2 row_11 1
     = strmm ''r'' ''u'' ''t'' ''U'' 1 2 2 (upper_diag 100 (- 4)) 2 row_11 1"
proof -
  have u: "lowerChar ''u'' = ''u''" "lowerChar ''U'' = ''u''" by code_simp+
  have off: "\<forall>i k. 1 \<le> i \<and> i \<le> 2 \<and> 1 \<le> k \<and> k \<le> 2 \<and> i \<noteq> k
      \<longrightarrow> mr (upper_diag 3 7) (colOfEx (upper_diag 3 7) k + i)
          = mr (upper_diag 100 (- 4)) (colOfEx (upper_diag 100 (- 4)) k + i)"
  proof (intro allI impI)
    fix i k :: int
    assume "1 \<le> i \<and> i \<le> 2 \<and> 1 \<le> k \<and> k \<le> 2 \<and> i \<noteq> k"
    then have "(i = 1 \<and> k = 2) \<or> (i = 2 \<and> k = 1)" by linarith
    then show "mr (upper_diag 3 7) (colOfEx (upper_diag 3 7) k + i)
          = mr (upper_diag 100 (- 4)) (colOfEx (upper_diag 100 (- 4)) k + i)"
      by (auto simp add: upper_diag_def column_major_def fpArray_of_def)
  qed
  have l: "(2::int) = (if lowerChar ''l'' = ''l'' then 2 else 1)"
    and r: "(2::int) = (if lowerChar ''r'' = ''l'' then 1 else 2)"
    by (simp_all add: lowerChar_codes)
  show ?thesis
    using strmm_unit_diag_independent [OF u(1) l off, of "''u''" "''n''" 2 2 col_11 2]
      strmm_unit_diag_independent [OF u(1) l off, of "''u''" "''t''" 2 2 col_11 2]
      strmm_unit_diag_independent [OF u(2) r off, of "''u''" "''n''" 2 2 row_11 1]
      strmm_unit_diag_independent [OF u(2) r off, of "''u''" "''t''" 2 2 row_11 1]
    by simp
qed

section \<open>What a chbmv call can change\<close>

lemma on_stride_iff: "on_stride start inc n p = (\<exists>t. 0 \<le> t \<and> t < n \<and> p = start + t * inc)"
  by (auto simp add: on_stride_def)

lemma off_strideD: "\<not> on_stride start inc n p \<Longrightarrow> 0 \<le> t \<Longrightarrow> t < n \<Longrightarrow> p \<noteq> start + t * inc"
  by (auto simp add: on_stride_iff)

lemma fold_upto_invariant:
  assumes "I a s" and "a \<le> b + 1"
    and "\<And>j s. a \<le> j \<Longrightarrow> j \<le> b \<Longrightarrow> I j s \<Longrightarrow> I (j + 1) (f j s)"
  shows "I (b + 1) (fold f [a..b] s)"
  using assms
proof (induction "nat (b + 1 - a)" arbitrary: a s)
  case 0
  then have "a = b + 1" by simp
  with 0 show ?case by simp
next
  case (Suc d)
  then have ab: "a \<le> b" by linarith
  have "I (b + 1) (fold f [a + 1..b] (f a s))"
  proof (rule Suc.hyps(1))
    show "d = nat (b + 1 - (a + 1))" using Suc.hyps(2) by linarith
    show "I (a + 1) (f a s)" using Suc.prems(1,3) ab by simp
    show "a + 1 \<le> b + 1" using ab by simp
    show "\<And>j s. a + 1 \<le> j \<Longrightarrow> j \<le> b \<Longrightarrow> I j s \<Longrightarrow> I (j + 1) (f j s)"
      using Suc.prems(3) by simp
  qed
  then show ?case using ab by (simp add: upto_rec1)
qed

lemma scale_fold_frame:
  "fold (\<lambda>_. chbmv_scale_step br bi bz incy) xs (yr, yi, iy) = (yr', yi', iy')
   \<Longrightarrow> (\<forall>p. (\<forall>t. t < length xs \<longrightarrow> p \<noteq> iy + int t * incy) \<longrightarrow> yr' p = yr p \<and> yi' p = yi p)"
proof (induction xs arbitrary: yr yi iy)
  case Nil
  then show ?case by simp
next
  case (Cons x xs)
  obtain yr1 yi1 where s: "chbmv_scale_step br bi bz incy (yr, yi, iy) = (yr1, yi1, iy + incy)"
    by (simp add: chbmv_scale_step_def Let_def)
  have one: "yr1 p = yr p \<and> yi1 p = yi p" if "p \<noteq> iy" for p
    using s that by (auto simp add: chbmv_scale_step_def Let_def)
  from Cons.prems s have "fold (\<lambda>_. chbmv_scale_step br bi bz incy) xs (yr1, yi1, iy + incy) = (yr', yi', iy')"
    by simp
  from Cons.IH [OF this]
  have rest: "(\<forall>t. t < length xs \<longrightarrow> p \<noteq> iy + incy + int t * incy) \<Longrightarrow> yr' p = yr1 p \<and> yi' p = yi1 p" for p
    by blast
  show ?case
  proof (intro allI impI)
    fix p assume off: "\<forall>t. t < length (x # xs) \<longrightarrow> p \<noteq> iy + int t * incy"
    from off [rule_format, of 0] have "p \<noteq> iy" by simp
    moreover have "\<forall>t. t < length xs \<longrightarrow> p \<noteq> iy + incy + int t * incy"
    proof (intro allI impI)
      fix t assume "t < length xs"
      with off [rule_format, of "Suc t"] show "p \<noteq> iy + incy + int t * incy"
        by (simp add: algebra_simps)
    qed
    ultimately show "yr' p = yr p \<and> yi' p = yi p" using one rest by simp
  qed
qed

lemma upper_inner_fold_frame:
  "fold (chbmv_upper_inner t1r t1i ar ai xr xi incx incy coords L) xs (yr, yi, t2r, t2i, ix, iy)
     = (yr', yi', t2r', t2i', ix', iy')
   \<Longrightarrow> iy' = iy + int (length xs) * incy
       \<and> (\<forall>p. (\<forall>t. t < length xs \<longrightarrow> p \<noteq> iy + int t * incy) \<longrightarrow> yr' p = yr p \<and> yi' p = yi p)"
proof (induction xs arbitrary: yr yi t2r t2i ix iy)
  case Nil
  then show ?case by simp
next
  case (Cons x xs)
  obtain yr1 yi1 t2r1 t2i1 where s:
    "chbmv_upper_inner t1r t1i ar ai xr xi incx incy coords L x (yr, yi, t2r, t2i, ix, iy)
       = (yr1, yi1, t2r1, t2i1, ix + incx, iy + incy)"
    by (simp add: chbmv_upper_inner_def Let_def)
  have one: "yr1 p = yr p \<and> yi1 p = yi p" if "p \<noteq> iy" for p
    using s that by (auto simp add: chbmv_upper_inner_def Let_def)
  from Cons.prems s
  have "fold (chbmv_upper_inner t1r t1i ar ai xr xi incx incy coords L) xs
          (yr1, yi1, t2r1, t2i1, ix + incx, iy + incy) = (yr', yi', t2r', t2i', ix', iy')"
    by simp
  from Cons.IH [OF this]
  have end_iy: "iy' = iy + incy + int (length xs) * incy"
    and rest: "\<And>p. (\<forall>t. t < length xs \<longrightarrow> p \<noteq> iy + incy + int t * incy)
                 \<Longrightarrow> yr' p = yr1 p \<and> yi' p = yi1 p"
    by blast+
  have "yr' p = yr p \<and> yi' p = yi p"
    if off: "\<forall>t. t < length (x # xs) \<longrightarrow> p \<noteq> iy + int t * incy" for p
  proof -
    from off [rule_format, of 0] have "p \<noteq> iy" by simp
    moreover have "\<forall>t. t < length xs \<longrightarrow> p \<noteq> iy + incy + int t * incy"
    proof (intro allI impI)
      fix t assume "t < length xs"
      with off [rule_format, of "Suc t"] show "p \<noteq> iy + incy + int t * incy"
        by (simp add: algebra_simps)
    qed
    ultimately show ?thesis using one rest by simp
  qed
  moreover have "iy' = iy + int (length (x # xs)) * incy"
    using end_iy by (simp add: algebra_simps)
  ultimately show ?case by blast
qed

lemma lower_inner_fold_frame:
  "fold (chbmv_lower_inner t1r t1i ar ai xr xi incx incy coords L) xs (yr, yi, t2r, t2i, ix, iy)
     = (yr', yi', t2r', t2i', ix', iy')
   \<Longrightarrow> (\<forall>p. (\<forall>t. t < length xs \<longrightarrow> p \<noteq> iy + (int t + 1) * incy) \<longrightarrow> yr' p = yr p \<and> yi' p = yi p)"
proof (induction xs arbitrary: yr yi t2r t2i ix iy)
  case Nil
  then show ?case by simp
next
  case (Cons x xs)
  obtain yr1 yi1 t2r1 t2i1 where s:
    "chbmv_lower_inner t1r t1i ar ai xr xi incx incy coords L x (yr, yi, t2r, t2i, ix, iy)
       = (yr1, yi1, t2r1, t2i1, ix + incx, iy + incy)"
    by (simp add: chbmv_lower_inner_def Let_def)
  have one: "yr1 p = yr p \<and> yi1 p = yi p" if "p \<noteq> iy + incy" for p
    using s that by (auto simp add: chbmv_lower_inner_def Let_def)
  from Cons.prems s
  have "fold (chbmv_lower_inner t1r t1i ar ai xr xi incx incy coords L) xs
          (yr1, yi1, t2r1, t2i1, ix + incx, iy + incy) = (yr', yi', t2r', t2i', ix', iy')"
    by simp
  from Cons.IH [OF this]
  have rest: "\<And>p. (\<forall>t. t < length xs \<longrightarrow> p \<noteq> iy + incy + (int t + 1) * incy)
                 \<Longrightarrow> yr' p = yr1 p \<and> yi' p = yi1 p"
    by blast
  have "yr' p = yr p \<and> yi' p = yi p"
    if off: "\<forall>t. t < length (x # xs) \<longrightarrow> p \<noteq> iy + (int t + 1) * incy" for p
  proof -
    from off [rule_format, of 0] have "p \<noteq> iy + incy" by simp
    moreover have "\<forall>t. t < length xs \<longrightarrow> p \<noteq> iy + incy + (int t + 1) * incy"
    proof (intro allI impI)
      fix t assume "t < length xs"
      with off [rule_format, of "Suc t"] show "p \<noteq> iy + incy + (int t + 1) * incy"
        by (simp add: algebra_simps)
    qed
    ultimately show ?thesis using one rest by simp
  qed
  then show ?case by blast
qed

lemma upper_col_frame:
  assumes j: "1 \<le> j" "j \<le> n" and k: "0 \<le> k"
    and ky: "ky = K0 + max 0 (j - 1 - k) * incy"
    and col: "chbmv_upper_col aR aI k ar ai colA xr xi xbase ybase incx incy j
                (yr, yi, jx, jy, kx, ky) = (yr', yi', jx', jy', kx', ky')"
  shows "ky' = K0 + max 0 (j - k) * incy"
    and "\<not> on_stride (K0 - ybase) incy n p \<Longrightarrow> yr' p = yr p \<and> yi' p = yi p"
proof -
  let ?xs = "[max 1 (j - k) .. j - 1]"
  let ?t1r = "aR * xr jx - aI * xi jx"
  let ?t1i = "aR * xi jx + aI * xr jx"
  obtain yr1 yi1 t2r t2i ix iy where inner:
    "fold (chbmv_upper_inner ?t1r ?t1i ar ai xr xi incx incy (colA j) (k + 1 - j)) ?xs
        (yr, yi, 0, 0, kx - xbase, ky - ybase) = (yr1, yi1, t2r, t2i, ix, iy)"
    by (metis prod_cases3)
  from upper_inner_fold_frame [OF inner]
  have iy: "iy = ky - ybase + int (length ?xs) * incy"
    and fr: "\<And>p. (\<forall>t. t < length ?xs \<longrightarrow> p \<noteq> ky - ybase + int t * incy)
               \<Longrightarrow> yr1 p = yr p \<and> yi1 p = yi p"
    by blast+
  from col inner have res:
    "yr' = yr1(iy := yr1 iy + (?t1r * ar (colA j + (k + 1)) + (aR * t2r - aI * t2i)))"
    "yi' = yi1(iy := yi1 iy + (?t1i * ar (colA j + (k + 1)) + (aR * t2i + aI * t2r)))"
    "ky' = (if j > k then ky + incy else ky)"
    by (simp_all add: chbmv_upper_col_def Let_def)
  show "ky' = K0 + max 0 (j - k) * incy"
    using res(3) ky k by (auto simp add: max_def algebra_simps)
  have len: "int (length ?xs) = j - max 1 (j - k)"
    using j k by (simp add: max_def)
  show "yr' p = yr p \<and> yi' p = yi p" if off: "\<not> on_stride (K0 - ybase) incy n p"
  proof -
    have pos: "p \<noteq> ky - ybase + t * incy" if "0 \<le> t" "t \<le> j - max 1 (j - k)" for t
    proof -
      have "0 \<le> max 0 (j - 1 - k) + t" using that by simp
      moreover have "max 0 (j - 1 - k) + t < n" using that j k by (simp add: max_def split: if_splits)
      ultimately have "p \<noteq> (K0 - ybase) + (max 0 (j - 1 - k) + t) * incy"
        using off off_strideD by blast
      then show ?thesis unfolding ky by (simp add: algebra_simps)
    qed
    have "p \<noteq> iy" unfolding iy len using pos [of "j - max 1 (j - k)"] j k
      by (simp add: max_def split: if_splits)
    moreover have "\<forall>t. t < length ?xs \<longrightarrow> p \<noteq> ky - ybase + int t * incy"
    proof (intro allI impI)
      fix t assume "t < length ?xs"
      then have "int t \<le> j - max 1 (j - k)" using len by linarith
      then show "p \<noteq> ky - ybase + int t * incy" using pos [of "int t"] by simp
    qed
    ultimately show ?thesis using fr [of p] res by simp
  qed
qed

lemma lower_col_frame:
  assumes j: "1 \<le> j" "j \<le> n"
    and jy: "jy = S + (j - 1) * incy"
    and col: "chbmv_lower_col aR aI n k ar ai colA xr xi incx incy j (yr, yi, jx, jy)
                = (yr', yi', jx', jy')"
  shows "jy' = S + j * incy"
    and "\<not> on_stride S incy n p \<Longrightarrow> yr' p = yr p \<and> yi' p = yi p"
proof -
  let ?xs = "[j + 1 .. min n (j + k)]"
  let ?t1r = "aR * xr jx - aI * xi jx"
  let ?t1i = "aR * xi jx + aI * xr jx"
  let ?yr0 = "yr(jy := yr jy + ?t1r * ar (colA j + 1))"
  let ?yi0 = "yi(jy := yi jy + ?t1i * ar (colA j + 1))"
  obtain yr1 yi1 t2r t2i ix iy where inner:
    "fold (chbmv_lower_inner ?t1r ?t1i ar ai xr xi incx incy (colA j) (1 - j)) ?xs
        (?yr0, ?yi0, 0, 0, jx, jy) = (yr1, yi1, t2r, t2i, ix, iy)"
    by (metis prod_cases3)
  from lower_inner_fold_frame [OF inner]
  have fr: "\<And>p. (\<forall>t. t < length ?xs \<longrightarrow> p \<noteq> jy + (int t + 1) * incy)
               \<Longrightarrow> yr1 p = ?yr0 p \<and> yi1 p = ?yi0 p"
    by blast
  from col inner have res:
    "yr' = yr1(jy := yr1 jy + (aR * t2r - aI * t2i))"
    "yi' = yi1(jy := yi1 jy + (aR * t2i + aI * t2r))"
    "jy' = jy + incy"
    by (simp_all add: chbmv_lower_col_def Let_def)
  show "jy' = S + j * incy"
    using res(3) jy by (simp add: algebra_simps)
  show "yr' p = yr p \<and> yi' p = yi p" if off: "\<not> on_stride S incy n p"
  proof -
    have pos: "p \<noteq> S + t * incy" if "0 \<le> t" "t < n" for t
      using off off_strideD that by blast
    have "p \<noteq> jy" unfolding jy using pos [of "j - 1"] j by simp
    moreover have "\<forall>t. t < length ?xs \<longrightarrow> p \<noteq> jy + (int t + 1) * incy"
    proof (intro allI impI)
      fix t assume "t < length ?xs"
      then have "j + int t < n" by (simp split: if_splits)
      with pos [of "j + int t"] j show "p \<noteq> jy + (int t + 1) * incy"
        unfolding jy by (simp add: algebra_simps)
    qed
    ultimately show ?thesis using fr [of p] res by simp
  qed
qed

lemma upper_loop_frame:
  assumes n: "0 \<le> n" and k: "0 \<le> k"
    and run: "fold (chbmv_upper_col aR aI k ar ai colA xr xi xbase ybase incx incy) [1..n]
                (yr, yi, jx, jy, kx, K0) = (yr', yi', rest)"
    and off: "\<not> on_stride (K0 - ybase) incy n p"
  shows "yr' p = yr p \<and> yi' p = yi p"
proof -
  let ?I = "\<lambda>j (s :: (int \<Rightarrow> 'a) \<times> (int \<Rightarrow> 'a) \<times> int \<times> int \<times> int \<times> int).
     case s of (yr1, yi1, jx1, jy1, kx1, ky1) \<Rightarrow>
       ky1 = K0 + max 0 (j - 1 - k) * incy \<and> yr1 p = yr p \<and> yi1 p = yi p"
  have "?I (n + 1) (fold (chbmv_upper_col aR aI k ar ai colA xr xi xbase ybase incx incy) [1..n]
                (yr, yi, jx, jy, kx, K0))"
  proof (rule fold_upto_invariant [where I = ?I])
    show "?I 1 (yr, yi, jx, jy, kx, K0)" using k by simp
    show "1 \<le> n + 1" using n by simp
  next
    fix j s assume j: "1 \<le> j" "j \<le> n" and inv: "?I j s"
    obtain yr1 yi1 jx1 jy1 kx1 ky1 where s: "s = (yr1, yi1, jx1, jy1, kx1, ky1)"
      by (metis prod_cases3)
    obtain yr2 yi2 jx2 jy2 kx2 ky2 where t:
      "chbmv_upper_col aR aI k ar ai colA xr xi xbase ybase incx incy j
         (yr1, yi1, jx1, jy1, kx1, ky1) = (yr2, yi2, jx2, jy2, kx2, ky2)"
      by (metis prod_cases3)
    from inv s have ky1: "ky1 = K0 + max 0 (j - 1 - k) * incy" and same: "yr1 p = yr p \<and> yi1 p = yi p"
      by simp_all
    from upper_col_frame [OF j k ky1 t] off
    have "ky2 = K0 + max 0 (j - k) * incy" and "yr2 p = yr1 p \<and> yi2 p = yi1 p"
      by blast+
    with same show "?I (j + 1) (chbmv_upper_col aR aI k ar ai colA xr xi xbase ybase incx incy j s)"
      unfolding s t by simp
  qed
  with run show ?thesis by (simp split: prod.splits)
qed

lemma lower_loop_frame:
  assumes n: "0 \<le> n"
    and run: "fold (chbmv_lower_col aR aI n k ar ai colA xr xi incx incy) [1..n]
                (yr, yi, jx, S) = (yr', yi', rest)"
    and off: "\<not> on_stride S incy n p"
  shows "yr' p = yr p \<and> yi' p = yi p"
proof -
  let ?I = "\<lambda>j (s :: (int \<Rightarrow> 'a) \<times> (int \<Rightarrow> 'a) \<times> int \<times> int).
     case s of (yr1, yi1, jx1, jy1) \<Rightarrow>
       jy1 = S + (j - 1) * incy \<and> yr1 p = yr p \<and> yi1 p = yi p"
  have "?I (n + 1) (fold (chbmv_lower_col aR aI n k ar ai colA xr xi incx incy) [1..n]
                (yr, yi, jx, S))"
  proof (rule fold_upto_invariant [where I = ?I])
    show "?I 1 (yr, yi, jx, S)" by simp
    show "1 \<le> n + 1" using n by simp
  next
    fix j s assume j: "1 \<le> j" "j \<le> n" and inv: "?I j s"
    obtain yr1 yi1 jx1 jy1 where s: "s = (yr1, yi1, jx1, jy1)"
      by (metis prod_cases3)
    obtain yr2 yi2 jx2 jy2 where t:
      "chbmv_lower_col aR aI n k ar ai colA xr xi incx incy j (yr1, yi1, jx1, jy1)
         = (yr2, yi2, jx2, jy2)"
      by (metis prod_cases3)
    from inv s have jy1: "jy1 = S + (j - 1) * incy" and same: "yr1 p = yr p \<and> yi1 p = yi p"
      by simp_all
    from lower_col_frame [OF j jy1 t] off
    have "jy2 = S + j * incy" and "yr2 p = yr1 p \<and> yi2 p = yi1 p"
      by blast+
    with same show "?I (j + 1) (chbmv_lower_col aR aI n k ar ai colA xr xi incx incy j s)"
      unfolding s t by simp
  qed
  with run show ?thesis by (simp split: prod.splits)
qed

lemma scale_branch_never_fill:
  "chbmv_scale_branch (betaIsOne beta) (betaIsZero beta) incy \<noteq> BulkFill"
  by (simp add: chbmv_scale_branch_def betaIsOne_def betaIsZero_def)

lemma scale_frame:
  assumes n: "0 \<le> n"
    and run: "chbmv_scale (betaIsOne beta) (betaIsZero beta) br bi n incy ky (yr, yi) = (yr', yi')"
    and off: "betaIsOne beta \<longrightarrow> \<not> on_stride ky incy n p"
  shows "yr' p = yr p \<and> yi' p = yi p"
proof (cases "chbmv_scale_branch (betaIsOne beta) (betaIsZero beta) incy")
  case NoScaling
  with run show ?thesis by (simp add: chbmv_scale_def)
next
  case BulkFill
  with scale_branch_never_fill show ?thesis by blast
next
  case StridedLoop
  then have "betaIsOne beta" by (simp add: chbmv_scale_branch_def split: if_splits)
  with off have off: "\<not> on_stride ky incy n p" by simp
  obtain yr1 yi1 iy1 where f:
    "fold (\<lambda>_. chbmv_scale_step br bi (betaIsZero beta) incy) [1..n] (yr, yi, ky) = (yr1, yi1, iy1)"
    by (metis prod_cases3)
  with run StridedLoop have eq: "yr' = yr1" "yi' = yi1" by (simp_all add: chbmv_scale_def)
  have "\<forall>t. t < length [1..n] \<longrightarrow> p \<noteq> ky + int t * incy"
  proof (intro allI impI)
    fix t assume "t < length [1..n]"
    then have "int t < n" by simp
    with off off_strideD [of ky incy n p "int t"] show "p \<noteq> ky + int t * incy" by simp
  qed
  with scale_fold_frame [OF f] eq show ?thesis by blast
qed

lemma kernel_frame:
  assumes n: "0 \<le> n" and k: "0 \<le> k"
    and run: "chbmv_kernel ul n k alpha ar ai colA xbase xr xi incx beta ybase incy (yr, yi)
                = (yr', yi')"
    and ky: "ky = (if incy > 0 then 1 else 1 - (n - 1) * incy)"
    and off1: "betaIsOne beta \<longrightarrow> \<not> on_stride ky incy n p" and off2: "\<not> on_stride (ky - ybase) incy n p"
  shows "yr' p = yr p \<and> yi' p = yi p"
proof (cases "n = 0 \<or> (alphaIsZero alpha \<and> betaIsOne beta)")
  case True
  with run show ?thesis by (simp add: chbmv_kernel_def)
next
  case False
  obtain yr1 yi1 where sc:
    "chbmv_scale (betaIsOne beta) (betaIsZero beta) (re beta) (im beta) n incy ky (yr, yi) = (yr1, yi1)"
    by (metis surj_pair)
  from scale_frame [OF n sc off1] have s1: "yr1 p = yr p \<and> yi1 p = yi p" .
  show ?thesis
  proof (cases "alphaIsZero alpha")
    case True
    with run False sc ky have "yr' = yr1 \<and> yi' = yi1" by (simp add: chbmv_kernel_def Let_def)
    with s1 show ?thesis by simp
  next
    case az: False
    show ?thesis
    proof (cases "ul = ''u''")
      case True
      obtain yr2 yi2 rest where f:
        "fold (chbmv_upper_col (re alpha) (im alpha) k ar ai colA xr xi xbase ybase incx incy) [1..n]
           (yr1, yi1, (if incx > 0 then 1 else 1 - (n - 1) * incx) - xbase, ky - ybase,
            (if incx > 0 then 1 else 1 - (n - 1) * incx), ky) = (yr2, yi2, rest)"
        by (metis prod_cases3)
      with run False az True sc ky have "yr' = yr2 \<and> yi' = yi2"
        by (simp add: chbmv_kernel_def Let_def)
      with upper_loop_frame [OF n k f off2] s1 show ?thesis by simp
    next
      case nu: False
      obtain yr2 yi2 rest where f:
        "fold (chbmv_lower_col (re alpha) (im alpha) n k ar ai colA xr xi incx incy) [1..n]
           (yr1, yi1, (if incx > 0 then 1 else 1 - (n - 1) * incx) - xbase, ky - ybase)
           = (yr2, yi2, rest)"
        by (metis prod_cases3)
      with run False az nu sc ky have "yr' = yr2 \<and> yi' = yi2"
        by (simp add: chbmv_kernel_def Let_def)
      with lower_loop_frame [OF n f off2] s1 show ?thesis by simp
    qed
  qed
qed

lemma chbmv_info_zero: "chbmv_info ul n k lda incx incy = 0 \<Longrightarrow> 0 \<le> n \<and> 0 \<le> k"
  by (simp add: chbmv_info_def split: if_splits)

lemma chbmv_frame:
  assumes ky: "ky = (if incy > 0 then 1 else 1 - (n - 1) * incy)"
    and off: "betaIsOne beta \<longrightarrow> \<not> on_stride ky incy n p"
      "\<not> on_stride (ky - base y) incy n p"
    and y': "y' = buffer_of (chbmv uplo n k alpha a lda x incx beta y incy)"
  shows "base y' = base y \<and> vr y' p = vr y p
           \<and> map_option (\<lambda>f. f p) (vi y') = map_option (\<lambda>f. f p) (vi y)"
proof (cases "chbmv uplo n k alpha a lda x incx beta y incy")
  case (Threw e b)
  then have "b = y"
    by (simp add: chbmv_def Let_def split: option.splits if_splits prod.splits)
  with Threw y' show ?thesis by simp
next
  case (Returned b)
  then obtain ai xi yi where im: "mi a = Some ai" "vi x = Some xi" "vi y = Some yi"
    by (auto simp add: chbmv_def split: option.splits)
  let ?ul = "fromCharCode (charCodeAt0 uplo OR 32)"
  from Returned im have info: "chbmv_info ?ul n k lda incx incy = 0"
    by (simp add: chbmv_def Let_def split: if_splits)
  obtain yr1 yi1 where kern:
    "chbmv_kernel ?ul n k alpha (mr a) ai (colOfEx a) (base x) (vr x) xi incx beta (base y) incy
       (vr y, yi) = (yr1, yi1)"
    by (metis surj_pair)
  from Returned im info kern have b: "b = y\<lparr>vr := yr1, vi := Some yi1\<rparr>"
    by (simp add: chbmv_def Let_def)
  from chbmv_info_zero [OF info] have nk: "0 \<le> n" "0 \<le> k" by simp_all
  from kernel_frame [OF nk kern ky off] have "yr1 p = vr y p \<and> yi1 p = yi p" .
  with b Returned y' im show ?thesis by simp
qed

text \<open>
  A call changes \<open>y\<close> only at the indices of its two loops: those of the scaling loop,
  which runs when \<open>beta = 1\<close> and counts from \<open>ky\<close>, and those of the accumulation,
  which counts from \<open>ky - y.base\<close>. Every other element of \<open>y.r\<close> and \<open>y.i\<close> is as it
  was.
\<close>

lemma chbmv_loop_frame:
  "\<forall>p. (let ky = (if incy > 0 then 1 else 1 - (n - 1) * incy);
            y' = buffer_of (chbmv uplo n k alpha a lda x incx beta y incy)
        in (betaIsOne beta \<longrightarrow> \<not> on_stride ky incy n p)
           \<and> \<not> on_stride (ky - base y) incy n p \<longrightarrow>
             base y' = base y \<and> vr y' p = vr y p
             \<and> map_option (\<lambda>f. f p) (vi y') = map_option (\<lambda>f. f p) (vi y))"
  using chbmv_frame [of _ incy n beta _ y _ uplo k alpha a lda x incx, OF refl _ _ refl]
  unfolding Let_def by blast

section \<open>The scaling loop and the base of \<open>y\<close>\<close>

lemmas js_eval = zero_jsnum_def one_jsnum_def plus_jsnum_def minus_jsnum_def times_jsnum_def
  js_inf_def js_band_2x2_def js_vec_11_def js_vec_5678_def

lemma upto_more: "[0..1] = [0, 1::int]" "[2..1] = ([]::int list)" "[2..2] = [2::int]"
  by (simp_all add: upto_rec1)

text \<open>
  C10. No \<open>beta\<close> takes the scaling block to its \<open>fill(0)\<close> branch. The kernel still
  stores outside the \<open>n\<close> strided positions of \<open>y\<close>: the scaling loop, which runs when
  \<open>beta = 1\<close>, counts from \<open>ky\<close> where every other access to \<open>y\<close> counts from
  \<open>ky - y.base\<close>. With \<open>n = 2\<close>, \<open>incy = 2\<close> and \<open>y.base = 1\<close> the positions of \<open>y\<close> are
  the indices 0 and 2; the call with \<open>alpha = beta = 1\<close> returns with \<open>y.r\<close> changed
  from \<open>[5, 6, 7, 8]\<close> to \<open>[8, NaN, 11, 8]\<close>: at index 1, which is not a position of
  \<open>y\<close>, it has stored \<open>1 * 6 - 0 * Infinity\<close>.
\<close>

theorem chbmv_scaling_off_stride:
  "chbmv_scale_branch (betaIsOne beta) (betaIsZero beta) incy \<noteq> BulkFill
   \<and> (\<exists>y'. chbmv ''u'' 2 1 \<lparr>re = 1, im = 0\<rparr> js_band_2x2 2 js_vec_11 1 \<lparr>re = 1, im = 0\<rparr>
               js_vec_5678 2 = Returned y'
         \<and> map (vr y') [0, 1, 2, 3] = [Fin 8, NaN, Fin 11, Fin 8]
         \<and> map (vr js_vec_5678) [0, 1, 2, 3] = [Fin 5, Fin 6, Fin 7, Fin 8]
         \<and> \<not> on_stride (1 - base js_vec_5678) 2 2 1)"
proof -
  have "chbmv_scale_branch (betaIsOne beta) (betaIsZero beta) incy \<noteq> BulkFill"
    by (simp add: chbmv_scale_branch_def betaIsOne_def betaIsZero_def)
  moreover have "\<exists>y'. chbmv ''u'' 2 1 \<lparr>re = 1, im = 0\<rparr> js_band_2x2 2 js_vec_11 1 \<lparr>re = 1, im = 0\<rparr>
               js_vec_5678 2 = Returned y'
         \<and> map (vr y') [0, 1, 2, 3] = [Fin 8, NaN, Fin 11, Fin 8]
         \<and> map (vr js_vec_5678) [0, 1, 2, 3] = [Fin 5, Fin 6, Fin 7, Fin 8]
         \<and> \<not> on_stride (1 - base js_vec_5678) 2 2 1"
    by (simp add: chbmv_def chbmv_kernel_def chbmv_info_def chbmv_scale_def
        chbmv_scale_branch_def chbmv_scale_step_def chbmv_upper_col_def chbmv_upper_inner_def
        alphaIsZero_def betaIsOne_def betaIsZero_def fromCharCode_codes fpArray_of_def
        column_major_def upto_small upto_more on_stride_def js_eval Let_def)
  ultimately show ?thesis by blast
qed

end
